theory Spec2Isabelle
  imports Main "HOL-Library.Word" "HOL-Library.Sublist"
begin

section \<open>Strings\<close>

text \<open>
  A JavaScript string is a sequence of UTF-16 code units; \<open>length\<close>, \<open>substring\<close>
  and the regular expressions of the installer all count code units. A string is
  therefore a list of 16-bit words, and \<open>js\<close> embeds an ASCII literal.
\<close>

type_synonym jsstring = "16 word list"

abbreviation (input) js :: "string \<Rightarrow> jsstring" where
  "js s \<equiv> map of_char s"

text \<open>
  \<open>String.prototype.toLowerCase\<close>. On ASCII it maps \<open>A-Z\<close> to \<open>a-z\<close> and keeps
  every other unit. Exactly two code points outside ASCII have a lower-case form
  that contains an ASCII unit: U+0130 (to \<open>i\<close> followed by U+0307) and the Kelvin sign U+212A (to
  \<open>k\<close>). Every other unit beyond ASCII lower-cases to units beyond ASCII; they are
  kept as they are here, which \<open>sanitizeName\<close> cannot observe, because its next step
  replaces any run of units outside \<open>[a-z0-9._]\<close> by one hyphen.
\<close>

definition isUpperAscii :: "16 word \<Rightarrow> bool" where
  "isUpperAscii c = (0x41 \<le> c \<and> c \<le> 0x5A)"

definition lowerUnit :: "16 word \<Rightarrow> jsstring" where
  "lowerUnit c =
     (if isUpperAscii c then [c + 0x20]
      else if c = 0x130 then [0x69, 0x307]
      else if c = 0x212A then [0x6B]
      else [c])"

definition toLowerCase :: "jsstring \<Rightarrow> jsstring" where
  "toLowerCase s = concat (map lowerUnit s)"

section \<open>installer.ts: sanitizeName\<close>

text \<open>The character class \<open>[a-z0-9._]\<close> of the first regular expression.\<close>

definition allowed :: "16 word \<Rightarrow> bool" where
  "allowed c =
     ((0x61 \<le> c \<and> c \<le> 0x7A) \<or> (0x30 \<le> c \<and> c \<le> 0x39) \<or> c = 0x2E \<or> c = 0x5F)"

text \<open>
  \<open>.replace(/[^a-z0-9._]+/g, '-')\<close>: a left-to-right scan; \<open>inRun\<close> says that the
  previous unit was already part of the run being replaced, so a maximal run
  yields a single hyphen.
\<close>

fun replaceRuns :: "bool \<Rightarrow> jsstring \<Rightarrow> jsstring" where
  "replaceRuns inRun [] = []"
| "replaceRuns inRun (c # cs) =
     (if allowed c then c # replaceRuns False cs
      else if inRun then replaceRuns True cs
      else 0x2D # replaceRuns True cs)"

text \<open>The character class \<open>[.\-]\<close> of the second regular expression.\<close>

definition dotOrHyphen :: "16 word \<Rightarrow> bool" where
  "dotOrHyphen c = (c = 0x2E \<or> c = 0x2D)"

text \<open>
  \<open>.replace(/^[.\-]+|[.\-]+$/g, '')\<close>: the leading run and the trailing run of
  dots and hyphens are removed.
\<close>

definition stripEnds :: "jsstring \<Rightarrow> jsstring" where
  "stripEnds s = rev (dropWhile dotOrHyphen (rev (dropWhile dotOrHyphen s)))"

text \<open>
  \<open>sanitized.substring(0, 255) || 'unnamed-skill'\<close>: the empty string is the only
  falsy string.
\<close>

definition sanitizeName :: "jsstring \<Rightarrow> jsstring" where
  "sanitizeName name =
     (let sanitized = stripEnds (replaceRuns False (toLowerCase name));
          cut = take 255 sanitized
      in if cut = [] then js ''unnamed-skill'' else cut)"

section \<open>Paths (node:path, POSIX flavour)\<close>

text \<open>
  The installer imports \<open>join\<close>, \<open>basename\<close>, \<open>normalize\<close>, \<open>resolve\<close>, \<open>sep\<close>,
  \<open>relative\<close> and \<open>dirname\<close> from \<open>path\<close>. They are modelled for a POSIX host, where
  the separator is the slash. \<open>resolve\<close> reads the working directory of the process,
  which is a parameter here.
\<close>

definition CHAR_FORWARD_SLASH :: "16 word" where
  "CHAR_FORWARD_SLASH = 0x2F"

definition sep :: jsstring where
  "sep = [CHAR_FORWARD_SLASH]"

text \<open>The pieces of a string between separators (\<open>''a//b''\<close> has an empty piece).\<close>

fun splitPath :: "jsstring \<Rightarrow> jsstring list" where
  "splitPath [] = [[]]"
| "splitPath (c # cs) =
     (if c = CHAR_FORWARD_SLASH then [] # splitPath cs
      else (case splitPath cs of [] \<Rightarrow> [[c]] | s # ss \<Rightarrow> (c # s) # ss))"

fun joinSegs :: "jsstring list \<Rightarrow> jsstring" where
  "joinSegs [] = []"
| "joinSegs [s] = s"
| "joinSegs (s # t # ts) = s @ CHAR_FORWARD_SLASH # joinSegs (t # ts)"

text \<open>
  \<open>normalizeString\<close>: empty pieces and \<open>.\<close> are dropped, \<open>..\<close> removes the last
  piece kept so far unless that is itself \<open>..\<close> (or nothing is kept), in which case
  it is kept only when the path may climb above its root. \<open>res\<close> is the stack of
  kept pieces, last one first.
\<close>

fun normalizeSegs :: "bool \<Rightarrow> jsstring list \<Rightarrow> jsstring list \<Rightarrow> jsstring list" where
  "normalizeSegs allowAboveRoot res [] = rev res"
| "normalizeSegs allowAboveRoot res (s # ss) =
     (if s = [] \<or> s = js ''.'' then normalizeSegs allowAboveRoot res ss
      else if s = js ''..'' then
        (case res of
           [] \<Rightarrow> if allowAboveRoot then normalizeSegs allowAboveRoot [s] ss
                 else normalizeSegs allowAboveRoot [] ss
         | t # ts \<Rightarrow>
             if t = js ''..'' then
               (if allowAboveRoot then normalizeSegs allowAboveRoot (s # res) ss
                else normalizeSegs allowAboveRoot res ss)
             else normalizeSegs allowAboveRoot ts ss)
      else normalizeSegs allowAboveRoot (s # res) ss)"

definition normalizeString :: "jsstring \<Rightarrow> bool \<Rightarrow> jsstring" where
  "normalizeString path allowAboveRoot = joinSegs (normalizeSegs allowAboveRoot [] (splitPath path))"

definition isAbsolute :: "jsstring \<Rightarrow> bool" where
  "isAbsolute path = (case path of [] \<Rightarrow> False | c # _ \<Rightarrow> c = CHAR_FORWARD_SLASH)"

definition normalize :: "jsstring \<Rightarrow> jsstring" where
  "normalize path =
     (if path = [] then js ''.''
      else
        let trailingSeparator = (last path = CHAR_FORWARD_SLASH);
            p = normalizeString path (\<not> isAbsolute path)
        in if p = [] then
             (if isAbsolute path then js ''/''
              else if trailingSeparator then js ''./'' else js ''.'')
           else
             let q = (if trailingSeparator then p @ js ''/'' else p)
             in if isAbsolute path then CHAR_FORWARD_SLASH # q else q)"

text \<open>\<open>join(...args)\<close>: the non-empty arguments, separated by slashes, normalized.\<close>

definition join :: "jsstring list \<Rightarrow> jsstring" where
  "join args =
     (case filter (\<lambda>a. a \<noteq> []) args of
        [] \<Rightarrow> js ''.''
      | nonEmpty \<Rightarrow> normalize (joinSegs nonEmpty))"

text \<open>
  \<open>resolve(...args)\<close> walks the arguments from the right, then the working
  directory, until the path collected is absolute.
\<close>

fun resolveLoop :: "jsstring list \<Rightarrow> jsstring \<Rightarrow> jsstring \<times> bool" where
  "resolveLoop [] resolvedPath = (resolvedPath, False)"
| "resolveLoop (path # rest) resolvedPath =
     (if path = [] then resolveLoop rest resolvedPath
      else if isAbsolute path then (path @ CHAR_FORWARD_SLASH # resolvedPath, True)
      else resolveLoop rest (path @ CHAR_FORWARD_SLASH # resolvedPath))"

definition resolve :: "jsstring \<Rightarrow> jsstring list \<Rightarrow> jsstring" where
  "resolve cwd args =
     (case resolveLoop (rev args @ [cwd]) [] of
        (resolvedPath, resolvedAbsolute) \<Rightarrow>
          let p = normalizeString resolvedPath (\<not> resolvedAbsolute)
          in if resolvedAbsolute then CHAR_FORWARD_SLASH # p
             else if p \<noteq> [] then p else js ''.'')"

text \<open>
  \<open>dirname\<close> scans from the end down to index 1: trailing slashes are skipped,
  then the last piece; the slash before it ends the result.
\<close>

definition dirname :: "jsstring \<Rightarrow> jsstring" where
  "dirname path =
     (if path = [] then js ''.''
      else
        let hasRoot = isAbsolute path;
            r = dropWhile (\<lambda>c. c \<noteq> CHAR_FORWARD_SLASH)
                  (dropWhile (\<lambda>c. c = CHAR_FORWARD_SLASH) (rev (tl path)))
        in if r = [] then (if hasRoot then js ''/'' else js ''.'')
           else if hasRoot \<and> length r = 1 then js ''//''
           else take (length r) path)"

definition basename :: "jsstring \<Rightarrow> jsstring" where
  "basename path =
     rev (takeWhile (\<lambda>c. c \<noteq> CHAR_FORWARD_SLASH)
            (dropWhile (\<lambda>c. c = CHAR_FORWARD_SLASH) (rev path)))"

text \<open>
  \<open>relative(from, to)\<close>: both are resolved; the common leading pieces are dropped,
  one \<open>..\<close> stands for each piece left of \<open>from\<close>.
\<close>

fun dropCommon :: "jsstring list \<Rightarrow> jsstring list \<Rightarrow> jsstring list \<times> jsstring list" where
  "dropCommon (a # as) (b # bs) = (if a = b then dropCommon as bs else (a # as, b # bs))"
| "dropCommon as bs = (as, bs)"

definition resolvedSegs :: "jsstring \<Rightarrow> jsstring \<Rightarrow> jsstring list" where
  "resolvedSegs cwd path = filter (\<lambda>s. s \<noteq> []) (splitPath (resolve cwd [path]))"

definition relative :: "jsstring \<Rightarrow> jsstring \<Rightarrow> jsstring \<Rightarrow> jsstring" where
  "relative cwd from to =
     (if from = to \<or> resolve cwd [from] = resolve cwd [to] then []
      else case dropCommon (resolvedSegs cwd from) (resolvedSegs cwd to) of
             (fs, ts) \<Rightarrow> joinSegs (map (\<lambda>_. js ''..'') fs @ ts))"

section \<open>installer.ts: isPathSafe\<close>

definition isPathSafe :: "jsstring \<Rightarrow> jsstring \<Rightarrow> jsstring \<Rightarrow> bool" where
  "isPathSafe cwd basePath targetPath =
     (let normalizedBase = normalize (resolve cwd [basePath]);
          normalizedTarget = normalize (resolve cwd [targetPath])
      in prefix (normalizedBase @ sep) normalizedTarget \<or> normalizedTarget = normalizedBase)"

text \<open>
  The components of a path: the non-empty pieces between separators. A path is a
  descendant of another when the other's components are a proper prefix of its own.
\<close>

definition components :: "jsstring \<Rightarrow> jsstring list" where
  "components path = filter (\<lambda>s. s \<noteq> []) (splitPath path)"

section \<open>Exceptions and the file system\<close>

text \<open>
  What a JavaScript \<open>throw\<close> carries. Every rejection of \<open>fs/promises\<close> and every
  argument check of \<open>path\<close> is an \<open>Error\<close> object, most with a \<open>code\<close> property;
  \<open>NonError\<close> stands for any other (truthy) thrown value.
\<close>

datatype thrown = ErrorObject (err_code: "jsstring option") (err_message: jsstring) | NonError

text \<open>The calls of \<open>fs/promises\<close>, with the options the sources pass.\<close>

datatype syscall =
    Mkdir jsstring \<comment> \<open>\<open>mkdir(path, { recursive: true })\<close>\<close>
  | Rm jsstring bool bool \<comment> \<open>\<open>rm(path, { recursive, force })\<close>\<close>
  | Lstat jsstring
  | Readlink jsstring
  | Symlink jsstring jsstring \<comment> \<open>\<open>symlink(target, path)\<close>\<close>
  | Readdir jsstring \<comment> \<open>\<open>readdir(path, { withFileTypes: true })\<close>\<close>
  | Cp jsstring jsstring bool bool \<comment> \<open>\<open>cp(src, dest, { dereference, recursive })\<close>\<close>
  | WriteFile jsstring jsstring
  | Stat jsstring
  | Access jsstring
  | ReadFile jsstring

datatype dirent = Dirent (dirent_name: jsstring) (dirent_isDirectory: bool)

text \<open>
  The program's view of the outside world is the sequence of calls it has made,
  each with the error it was rejected with, if any.
\<close>

type_synonym event = "syscall \<times> thrown option"
type_synonym log = "event list"

text \<open>
  The file system is an arbitrary environment: for every call, given everything
  that happened before, it either answers or rejects. Nothing is assumed about
  it, so a property proved for every \<open>fsenv\<close> holds for permission errors, full
  disks, missing developer mode and anything else.
\<close>

record fsenv =
  fs_unit :: "log \<Rightarrow> syscall \<Rightarrow> thrown option"
  fs_lstat :: "log \<Rightarrow> jsstring \<Rightarrow> thrown + bool" \<comment> \<open>the answer is \<open>stats.isSymbolicLink()\<close>\<close>
  fs_readlink :: "log \<Rightarrow> jsstring \<Rightarrow> thrown + jsstring"
  fs_readdir :: "log \<Rightarrow> jsstring \<Rightarrow> thrown + dirent list"
  fs_stat :: "log \<Rightarrow> jsstring \<Rightarrow> thrown + bool" \<comment> \<open>the answer is \<open>stats.isFile()\<close>\<close>
  fs_readFile :: "log \<Rightarrow> jsstring \<Rightarrow> thrown + jsstring"

text \<open>
  An asynchronous function is a computation over the log that returns a value or
  throws. \<open>await\<close> is \<open>io_bind\<close>, \<open>try\<close>/\<open>catch\<close> is \<open>io_catch\<close>.
\<close>

type_synonym 'a io = "log \<Rightarrow> (thrown + 'a) \<times> log"

definition io_return :: "'a \<Rightarrow> 'a io" where
  "io_return x = (\<lambda>log. (Inr x, log))"

definition io_throw :: "thrown \<Rightarrow> 'a io" where
  "io_throw e = (\<lambda>log. (Inl e, log))"

definition io_bind :: "'a io \<Rightarrow> ('a \<Rightarrow> 'b io) \<Rightarrow> 'b io" where
  "io_bind m f = (\<lambda>log. case m log of (Inl e, log') \<Rightarrow> (Inl e, log') | (Inr x, log') \<Rightarrow> f x log')"

definition io_then :: "'a io \<Rightarrow> 'b io \<Rightarrow> 'b io" where
  "io_then m k = io_bind m (\<lambda>_. k)"

definition io_catch :: "'a io \<Rightarrow> (thrown \<Rightarrow> 'a io) \<Rightarrow> 'a io" where
  "io_catch m h = (\<lambda>log. case m log of (Inl e, log') \<Rightarrow> h e log' | (Inr x, log') \<Rightarrow> (Inr x, log'))"

text \<open>A loop body run for each element in turn; the first throw ends the loop.\<close>

fun forEach :: "'a list \<Rightarrow> ('a \<Rightarrow> unit io) \<Rightarrow> unit io" where
  "forEach [] body = io_return ()"
| "forEach (x # xs) body = io_then (body x) (forEach xs body)"

definition query :: "(log \<Rightarrow> thrown + 'a) \<Rightarrow> syscall \<Rightarrow> 'a io" where
  "query ask call =
     (\<lambda>log. case ask log of
        Inl e \<Rightarrow> (Inl e, log @ [(call, Some e)])
      | Inr x \<Rightarrow> (Inr x, log @ [(call, None)]))"

definition perform :: "fsenv \<Rightarrow> syscall \<Rightarrow> unit io" where
  "perform env call =
     query (\<lambda>log. case fs_unit env log call of None \<Rightarrow> Inr () | Some e \<Rightarrow> Inl e) call"

definition mkdir :: "fsenv \<Rightarrow> jsstring \<Rightarrow> unit io" where
  "mkdir env path = perform env (Mkdir path)"

definition rm :: "fsenv \<Rightarrow> jsstring \<Rightarrow> bool \<Rightarrow> bool \<Rightarrow> unit io" where
  "rm env path recursive force = perform env (Rm path recursive force)"

definition symlink :: "fsenv \<Rightarrow> jsstring \<Rightarrow> jsstring \<Rightarrow> unit io" where
  "symlink env target path = perform env (Symlink target path)"

definition cp :: "fsenv \<Rightarrow> jsstring \<Rightarrow> jsstring \<Rightarrow> bool \<Rightarrow> bool \<Rightarrow> unit io" where
  "cp env src dest dereference recursive = perform env (Cp src dest dereference recursive)"

definition writeFile :: "fsenv \<Rightarrow> jsstring \<Rightarrow> jsstring \<Rightarrow> unit io" where
  "writeFile env path content = perform env (WriteFile path content)"

definition access :: "fsenv \<Rightarrow> jsstring \<Rightarrow> unit io" where
  "access env path = perform env (Access path)"

definition lstat :: "fsenv \<Rightarrow> jsstring \<Rightarrow> bool io" where
  "lstat env path = query (\<lambda>log. fs_lstat env log path) (Lstat path)"

definition readlink :: "fsenv \<Rightarrow> jsstring \<Rightarrow> jsstring io" where
  "readlink env path = query (\<lambda>log. fs_readlink env log path) (Readlink path)"

definition readdir :: "fsenv \<Rightarrow> jsstring \<Rightarrow> dirent list io" where
  "readdir env path = query (\<lambda>log. fs_readdir env log path) (Readdir path)"

definition stat :: "fsenv \<Rightarrow> jsstring \<Rightarrow> bool io" where
  "stat env path = query (\<lambda>log. fs_stat env log path) (Stat path)"

definition readFile :: "fsenv \<Rightarrow> jsstring \<Rightarrow> jsstring io" where
  "readFile env path = query (\<lambda>log. fs_readFile env log path) (ReadFile path)"

text \<open>
  The front matter of a descriptor as the sources read it: \<open>data.name\<close> and
  \<open>data.description\<close> (empty when absent, which is as falsy as the empty string)
  and whether \<open>data.metadata?.internal === true\<close>.

  The host: the working directory of the process (absolute), the home directory,
  the number of nested directory levels after which the operating system
  rejects a path as too long (that bound is what ends a recursive copy on any
  tree the environment can present), one environment variable, and the
  \<open>gray-matter\<close> parser, which may throw.
\<close>

record frontmatter =
  fm_name :: jsstring
  fm_description :: jsstring
  fm_internal :: bool

record host =
  process_cwd :: jsstring
  homedir :: jsstring
  pathLevels :: nat
  INSTALL_INTERNAL_SKILLS :: "jsstring option"
  matter :: "jsstring \<Rightarrow> thrown + frontmatter"

definition ENAMETOOLONG :: thrown where
  "ENAMETOOLONG = ErrorObject (Some (js ''ENAMETOOLONG'')) (js ''ENAMETOOLONG: name too long'')"

text \<open>
  \<open>path.join\<close> validates its arguments: an \<open>undefined\<close> argument throws this
  \<open>TypeError\<close>.
\<close>

definition ERR_INVALID_ARG_TYPE :: thrown where
  "ERR_INVALID_ARG_TYPE =
     ErrorObject (Some (js ''ERR_INVALID_ARG_TYPE''))
       (js ''The path argument must be of type string. Received undefined'')"

section \<open>types.ts and agents.ts\<close>

type_synonym AgentType = jsstring

record Skill =
  skill_name :: jsstring
  skill_description :: jsstring
  skill_path :: jsstring
  skill_rawContent :: "jsstring option"

text \<open>
  \<open>globalSkillsDir\<close> is \<open>undefined\<close> for an agent without global installation
  (\<open>replit\<close> in the table of agents.ts).
\<close>

record AgentConfig =
  agent_name :: jsstring
  displayName :: jsstring
  skillsDir :: jsstring
  globalSkillsDir :: "jsstring option"

record RemoteSkill =
  remote_name :: jsstring
  remote_description :: jsstring
  remote_content :: jsstring
  remote_installName :: jsstring

record WellKnownSkill =
  wk_installName :: jsstring
  wk_files :: "(jsstring \<times> jsstring) list" \<comment> \<open>a \<open>Map\<close>, in insertion order\<close>

section \<open>installer.ts: installing\<close>

datatype InstallMode = SymlinkMode | CopyMode

record InstallResult =
  success :: bool
  path :: jsstring
  canonicalPath :: "jsstring option"
  mode :: InstallMode
  symlinkFailed :: "bool option"
  error :: "jsstring option"

record InstallOptions =
  opt_global :: "bool option"
  opt_cwd :: "jsstring option"
  opt_mode :: "InstallMode option"

definition AGENTS_DIR :: jsstring where
  "AGENTS_DIR = js ''.agents''"

definition SKILLS_SUBDIR :: jsstring where
  "SKILLS_SUBDIR = js ''skills''"

text \<open>\<open>x || process.cwd()\<close>: an absent or empty string falls through.\<close>

definition orCwd :: "host \<Rightarrow> jsstring option \<Rightarrow> jsstring" where
  "orCwd h c = (case c of None \<Rightarrow> process_cwd h | Some d \<Rightarrow> if d = [] then process_cwd h else d)"

definition getCanonicalSkillsDir :: "host \<Rightarrow> bool \<Rightarrow> jsstring option \<Rightarrow> jsstring" where
  "getCanonicalSkillsDir h global cwd =
     (let baseDir = (if global then homedir h else orCwd h cwd)
      in join [baseDir, AGENTS_DIR, SKILLS_SUBDIR])"

definition resolveSymlinkTarget :: "host \<Rightarrow> jsstring \<Rightarrow> jsstring \<Rightarrow> jsstring" where
  "resolveSymlinkTarget h linkPath linkTarget = resolve (process_cwd h) [dirname linkPath, linkTarget]"

definition hasCode :: "thrown \<Rightarrow> jsstring \<Rightarrow> bool" where
  "hasCode err c = (case err of ErrorObject (Some d) _ \<Rightarrow> d = c | _ \<Rightarrow> False)"

definition ensureDirectory :: "fsenv \<Rightarrow> jsstring \<Rightarrow> unit io" where
  "ensureDirectory env p =
     io_then
       (io_catch
          (io_bind (lstat env p) (\<lambda>isSymbolicLink.
             if isSymbolicLink then rm env p True True else io_return ()))
          (\<lambda>err. case err of
             ErrorObject (Some c) _ \<Rightarrow>
               if c \<noteq> js ''ENOENT'' then
                 (if c = js ''ELOOP'' then rm env p True True else io_throw err)
               else io_return ()
           | _ \<Rightarrow> io_throw err))
       (mkdir env p)"

text \<open>
  \<open>createSymlink\<close>. The inner \<open>try\<close> returns \<open>True\<close> when the function has
  already returned \<open>true\<close> from inside it (the link exists and points at the target).
\<close>

definition createSymlink :: "host \<Rightarrow> fsenv \<Rightarrow> jsstring \<Rightarrow> jsstring \<Rightarrow> bool io" where
  "createSymlink h env target linkPath =
     io_catch
       (let resolvedTarget = resolve (process_cwd h) [target];
            resolvedLinkPath = resolve (process_cwd h) [linkPath]
        in if resolvedTarget = resolvedLinkPath then io_return True
           else
             io_bind
               (io_catch
                  (io_bind (lstat env linkPath) (\<lambda>isSymbolicLink.
                     if isSymbolicLink then
                       io_bind (readlink env linkPath) (\<lambda>existingTarget.
                         if resolveSymlinkTarget h linkPath existingTarget = resolvedTarget
                         then io_return True
                         else io_then (rm env linkPath False False) (io_return False))
                     else io_then (rm env linkPath True False) (io_return False)))
                  (\<lambda>err.
                     if hasCode err (js ''ELOOP'') then
                       io_then (io_catch (rm env linkPath False True) (\<lambda>_. io_return ()))
                         (io_return False)
                     else io_return False))
               (\<lambda>returned.
                  if returned then io_return True
                  else
                    let linkDir = dirname linkPath;
                        relativePath = relative (process_cwd h) linkDir target
                    in io_then (mkdir env linkDir)
                         (io_then (symlink env relativePath linkPath) (io_return True))))
       (\<lambda>_. io_return False)"

definition EXCLUDE_FILES :: "jsstring list" where
  "EXCLUDE_FILES = [js ''README.md'', js ''metadata.json'']"

definition EXCLUDE_DIRS :: "jsstring list" where
  "EXCLUDE_DIRS = [js ''.git'']"

definition startsWith :: "jsstring \<Rightarrow> jsstring \<Rightarrow> bool" where
  "startsWith s t = prefix t s"

definition isExcluded :: "jsstring \<Rightarrow> bool \<Rightarrow> bool" where
  "isExcluded name isDirectory =
     (if name \<in> set EXCLUDE_FILES then True
      else if startsWith name (js ''_'') then True
      else if isDirectory \<and> name \<in> set EXCLUDE_DIRS then True
      else False)"

text \<open>
  \<open>copyDirectory\<close>. The children are started together with \<open>Promise.all\<close>; they
  are run here one after the other in the order \<open>readdir\<close> lists them, and the
  first rejection is the one the caller sees. The first argument counts the
  directory levels the host still accepts; at none, \<open>mkdir\<close> is rejected.
\<close>

fun copyDirectory :: "nat \<Rightarrow> fsenv \<Rightarrow> jsstring \<Rightarrow> jsstring \<Rightarrow> unit io" where
  "copyDirectory 0 env src dest =
     query (\<lambda>_. Inl ENAMETOOLONG) (Mkdir dest)"
| "copyDirectory (Suc levels) env src dest =
     io_then (mkdir env dest)
       (io_bind (readdir env src) (\<lambda>entries.
          forEach
            (filter (\<lambda>entry. \<not> isExcluded (dirent_name entry) (dirent_isDirectory entry)) entries)
            (\<lambda>entry.
               let srcPath = join [src, dirent_name entry];
                   destPath = join [dest, dirent_name entry]
               in if dirent_isDirectory entry then copyDirectory levels env srcPath destPath
                  else cp env srcPath destPath True True)))"

definition failure :: "jsstring \<Rightarrow> InstallMode \<Rightarrow> jsstring \<Rightarrow> InstallResult" where
  "failure agentDir installMode msg =
     \<lparr>success = False, path = agentDir, canonicalPath = None, mode = installMode,
      symlinkFailed = None, error = Some msg\<rparr>"

text \<open>\<open>error instanceof Error ? error.message : 'Unknown error'\<close>\<close>

definition errorMessage :: "thrown \<Rightarrow> jsstring" where
  "errorMessage e = (case e of ErrorObject _ m \<Rightarrow> m | NonError \<Rightarrow> js ''Unknown error'')"

definition traversalMessage :: jsstring where
  "traversalMessage = js ''Invalid skill name: potential path traversal detected''"

text \<open>
  \<open>isGlobal ? agent.globalSkillsDir : join(cwd, agent.skillsDir)\<close>; \<open>None\<close> is
  \<open>undefined\<close>.
\<close>

definition agentBaseOf :: "AgentConfig \<Rightarrow> bool \<Rightarrow> jsstring \<Rightarrow> jsstring option" where
  "agentBaseOf agent isGlobal cwd =
     (if isGlobal then globalSkillsDir agent else Some (join [cwd, skillsDir agent]))"

definition installSkillForAgent ::
  "host \<Rightarrow> fsenv \<Rightarrow> (AgentType \<times> AgentConfig) list \<Rightarrow> Skill \<Rightarrow> AgentType \<Rightarrow> InstallOptions
     \<Rightarrow> InstallResult io" where
  "installSkillForAgent h env agents skill agentType options =
     (case map_of agents agentType of
        None \<Rightarrow> io_throw ERR_INVALID_ARG_TYPE
      | Some agent \<Rightarrow>
          let isGlobal = (case opt_global options of None \<Rightarrow> False | Some g \<Rightarrow> g);
              cwd = orCwd h (opt_cwd options);
              rawSkillName = (if skill_name skill \<noteq> [] then skill_name skill
                              else basename (skill_path skill));
              skillName = sanitizeName rawSkillName;
              canonicalBase = getCanonicalSkillsDir h isGlobal (Some cwd);
              canonicalDir = join [canonicalBase, skillName]
          in case agentBaseOf agent isGlobal cwd of
               None \<Rightarrow> io_throw ERR_INVALID_ARG_TYPE
             | Some agentBase \<Rightarrow>
                 let agentDir = join [agentBase, skillName];
                     installMode = (case opt_mode options of None \<Rightarrow> SymlinkMode | Some m \<Rightarrow> m)
                 in if \<not> isPathSafe (process_cwd h) canonicalBase canonicalDir then
                      io_return (failure agentDir installMode traversalMessage)
                    else if \<not> isPathSafe (process_cwd h) agentBase agentDir then
                      io_return (failure agentDir installMode traversalMessage)
                    else
                      io_catch
                        (if installMode = CopyMode then
                           io_then (mkdir env agentDir)
                             (io_then (copyDirectory (pathLevels h) env (skill_path skill) agentDir)
                                (io_return
                                   \<lparr>success = True, path = agentDir, canonicalPath = None,
                                    mode = CopyMode, symlinkFailed = None, error = None\<rparr>))
                         else
                           io_then (ensureDirectory env canonicalDir)
                             (io_then (copyDirectory (pathLevels h) env (skill_path skill) canonicalDir)
                                (io_bind (createSymlink h env canonicalDir agentDir) (\<lambda>symlinkCreated.
                                   if \<not> symlinkCreated then
                                     io_then (io_catch (rm env agentDir True True) (\<lambda>_. io_return ()))
                                       (io_then (mkdir env agentDir)
                                          (io_then
                                             (copyDirectory (pathLevels h) env (skill_path skill) agentDir)
                                             (io_return
                                                \<lparr>success = True, path = agentDir,
                                                 canonicalPath = Some canonicalDir,
                                                 mode = SymlinkMode, symlinkFailed = Some True,
                                                 error = None\<rparr>)))
                                   else
                                     io_return
                                       \<lparr>success = True, path = agentDir,
                                        canonicalPath = Some canonicalDir, mode = SymlinkMode,
                                        symlinkFailed = None, error = None\<rparr>))))
                        (\<lambda>e. io_return (failure agentDir installMode (errorMessage e))))"

definition installRemoteSkillForAgent ::
  "host \<Rightarrow> fsenv \<Rightarrow> (AgentType \<times> AgentConfig) list \<Rightarrow> RemoteSkill \<Rightarrow> AgentType \<Rightarrow> InstallOptions
     \<Rightarrow> InstallResult io" where
  "installRemoteSkillForAgent h env agents skill agentType options =
     (case map_of agents agentType of
        None \<Rightarrow> io_throw ERR_INVALID_ARG_TYPE
      | Some agent \<Rightarrow>
          let isGlobal = (case opt_global options of None \<Rightarrow> False | Some g \<Rightarrow> g);
              cwd = orCwd h (opt_cwd options);
              installMode = (case opt_mode options of None \<Rightarrow> SymlinkMode | Some m \<Rightarrow> m);
              skillName = sanitizeName (remote_installName skill);
              canonicalBase = getCanonicalSkillsDir h isGlobal (Some cwd);
              canonicalDir = join [canonicalBase, skillName]
          in case agentBaseOf agent isGlobal cwd of
               None \<Rightarrow> io_throw ERR_INVALID_ARG_TYPE
             | Some agentBase \<Rightarrow>
                 let agentDir = join [agentBase, skillName]
                 in if \<not> isPathSafe (process_cwd h) canonicalBase canonicalDir then
                      io_return (failure agentDir installMode traversalMessage)
                    else if \<not> isPathSafe (process_cwd h) agentBase agentDir then
                      io_return (failure agentDir installMode traversalMessage)
                    else
                      io_catch
                        (if installMode = CopyMode then
                           io_then (mkdir env agentDir)
                             (io_then
                                (writeFile env (join [agentDir, js ''SKILL.md'']) (remote_content skill))
                                (io_return
                                   \<lparr>success = True, path = agentDir, canonicalPath = None,
                                    mode = CopyMode, symlinkFailed = None, error = None\<rparr>))
                         else
                           io_then (ensureDirectory env canonicalDir)
                             (io_then
                                (writeFile env (join [canonicalDir, js ''SKILL.md''])
                                   (remote_content skill))
                                (io_bind (createSymlink h env canonicalDir agentDir) (\<lambda>symlinkCreated.
                                   if \<not> symlinkCreated then
                                     io_then (io_catch (rm env agentDir True True) (\<lambda>_. io_return ()))
                                       (io_then (mkdir env agentDir)
                                          (io_then
                                             (writeFile env (join [agentDir, js ''SKILL.md''])
                                                (remote_content skill))
                                             (io_return
                                                \<lparr>success = True, path = agentDir,
                                                 canonicalPath = Some canonicalDir,
                                                 mode = SymlinkMode, symlinkFailed = Some True,
                                                 error = None\<rparr>)))
                                   else
                                     io_return
                                       \<lparr>success = True, path = agentDir,
                                        canonicalPath = Some canonicalDir, mode = SymlinkMode,
                                        symlinkFailed = None, error = None\<rparr>))))
                        (\<lambda>e. io_return (failure agentDir installMode (errorMessage e))))"

text \<open>
  \<open>writeSkillFiles\<close>, the local function of \<open>installWellKnownSkillForAgent\<close>;
  \<open>continue\<close> is the \<open>io_return ()\<close> of the loop body.
\<close>

definition writeSkillFiles ::
  "host \<Rightarrow> fsenv \<Rightarrow> (jsstring \<times> jsstring) list \<Rightarrow> jsstring \<Rightarrow> unit io" where
  "writeSkillFiles h env files targetDir =
     io_then (mkdir env targetDir)
       (forEach files (\<lambda>(filePath, content).
          let fullPath = join [targetDir, filePath]
          in if \<not> isPathSafe (process_cwd h) targetDir fullPath then io_return ()
             else
               let parentDir = dirname fullPath
               in io_then (if parentDir \<noteq> targetDir then mkdir env parentDir else io_return ())
                    (writeFile env fullPath content)))"

definition installWellKnownSkillForAgent ::
  "host \<Rightarrow> fsenv \<Rightarrow> (AgentType \<times> AgentConfig) list \<Rightarrow> WellKnownSkill \<Rightarrow> AgentType
     \<Rightarrow> InstallOptions \<Rightarrow> InstallResult io" where
  "installWellKnownSkillForAgent h env agents skill agentType options =
     (case map_of agents agentType of
        None \<Rightarrow> io_throw ERR_INVALID_ARG_TYPE
      | Some agent \<Rightarrow>
          let isGlobal = (case opt_global options of None \<Rightarrow> False | Some g \<Rightarrow> g);
              cwd = orCwd h (opt_cwd options);
              installMode = (case opt_mode options of None \<Rightarrow> SymlinkMode | Some m \<Rightarrow> m);
              skillName = sanitizeName (wk_installName skill);
              canonicalBase = getCanonicalSkillsDir h isGlobal (Some cwd);
              canonicalDir = join [canonicalBase, skillName]
          in case agentBaseOf agent isGlobal cwd of
               None \<Rightarrow> io_throw ERR_INVALID_ARG_TYPE
             | Some agentBase \<Rightarrow>
                 let agentDir = join [agentBase, skillName]
                 in if \<not> isPathSafe (process_cwd h) canonicalBase canonicalDir then
                      io_return (failure agentDir installMode traversalMessage)
                    else if \<not> isPathSafe (process_cwd h) agentBase agentDir then
                      io_return (failure agentDir installMode traversalMessage)
                    else
                      io_catch
                        (if installMode = CopyMode then
                           io_then (writeSkillFiles h env (wk_files skill) agentDir)
                             (io_return
                                \<lparr>success = True, path = agentDir, canonicalPath = None,
                                 mode = CopyMode, symlinkFailed = None, error = None\<rparr>)
                         else
                           io_then (writeSkillFiles h env (wk_files skill) canonicalDir)
                             (io_bind (createSymlink h env canonicalDir agentDir) (\<lambda>symlinkCreated.
                                if \<not> symlinkCreated then
                                  io_then (io_catch (rm env agentDir True True) (\<lambda>_. io_return ()))
                                    (io_then (writeSkillFiles h env (wk_files skill) agentDir)
                                       (io_return
                                          \<lparr>success = True, path = agentDir,
                                           canonicalPath = Some canonicalDir,
                                           mode = SymlinkMode, symlinkFailed = Some True,
                                           error = None\<rparr>))
                                else
                                  io_return
                                    \<lparr>success = True, path = agentDir,
                                     canonicalPath = Some canonicalDir, mode = SymlinkMode,
                                     symlinkFailed = None, error = None\<rparr>)))
                        (\<lambda>e. io_return (failure agentDir installMode (errorMessage e))))"

section \<open>add.ts: the install loop of runAdd\<close>

definition getSkillDisplayName :: "Skill \<Rightarrow> jsstring" where
  "getSkillDisplayName skill =
     (if skill_name skill \<noteq> [] then skill_name skill else basename (skill_path skill))"

record InstallReport =
  report_skill :: jsstring
  report_agent :: jsstring
  report_result :: InstallResult

text \<open>
  \<open>for (const agent of targetAgents) { const result = await installSkillForAgent(...);
  results.push({ skill, agent, ...result }) }\<close>, inside \<open>for (const skill of
  selectedSkills)\<close>. \<open>agents[agent].displayName\<close> of an agent that is not in the
  table is a \<open>TypeError\<close>.
\<close>

fun installAgentsLoop ::
  "host \<Rightarrow> fsenv \<Rightarrow> (AgentType \<times> AgentConfig) list \<Rightarrow> bool \<Rightarrow> InstallMode \<Rightarrow> Skill
     \<Rightarrow> AgentType list \<Rightarrow> InstallReport list \<Rightarrow> InstallReport list io" where
  "installAgentsLoop h env agents installGlobally installMode skill [] results = io_return results"
| "installAgentsLoop h env agents installGlobally installMode skill (agent # rest) results =
     io_bind
       (installSkillForAgent h env agents skill agent
          \<lparr>opt_global = Some installGlobally, opt_cwd = None, opt_mode = Some installMode\<rparr>)
       (\<lambda>result.
          case map_of agents agent of
            None \<Rightarrow> io_throw ERR_INVALID_ARG_TYPE
          | Some config \<Rightarrow>
              installAgentsLoop h env agents installGlobally installMode skill rest
                (results @ [\<lparr>report_skill = getSkillDisplayName skill,
                             report_agent = displayName config,
                             report_result = result\<rparr>]))"

fun installSkillsLoop ::
  "host \<Rightarrow> fsenv \<Rightarrow> (AgentType \<times> AgentConfig) list \<Rightarrow> bool \<Rightarrow> InstallMode \<Rightarrow> Skill list
     \<Rightarrow> AgentType list \<Rightarrow> InstallReport list \<Rightarrow> InstallReport list io" where
  "installSkillsLoop h env agents installGlobally installMode [] targetAgents results =
     io_return results"
| "installSkillsLoop h env agents installGlobally installMode (skill # rest) targetAgents results =
     io_bind (installAgentsLoop h env agents installGlobally installMode skill targetAgents results)
       (\<lambda>results'.
          installSkillsLoop h env agents installGlobally installMode rest targetAgents results')"

section \<open>skills.ts: discovering skills\<close>

definition SKIP_DIRS :: "jsstring list" where
  "SKIP_DIRS = [js ''node_modules'', js ''.git'', js ''dist'', js ''build'', js ''__pycache__'']"

definition shouldInstallInternalSkills :: "host \<Rightarrow> bool" where
  "shouldInstallInternalSkills h =
     (INSTALL_INTERNAL_SKILLS h = Some (js ''1'') \<or> INSTALL_INTERNAL_SKILLS h = Some (js ''true''))"

definition hasSkillMd :: "fsenv \<Rightarrow> jsstring \<Rightarrow> bool io" where
  "hasSkillMd env dir =
     io_catch (io_bind (stat env (join [dir, js ''SKILL.md''])) (\<lambda>isFile. io_return isFile))
       (\<lambda>_. io_return False)"

definition parseSkillMd :: "host \<Rightarrow> fsenv \<Rightarrow> jsstring \<Rightarrow> bool \<Rightarrow> Skill option io" where
  "parseSkillMd h env skillMdPath includeInternal =
     io_catch
       (io_bind (readFile env skillMdPath) (\<lambda>content.
          case matter h content of
            Inl e \<Rightarrow> io_throw e
          | Inr data \<Rightarrow>
              if fm_name data = [] \<or> fm_description data = [] then io_return None
              else if fm_internal data \<and> \<not> shouldInstallInternalSkills h \<and> \<not> includeInternal
              then io_return None
              else io_return
                     (Some \<lparr>skill_name = fm_name data, skill_description = fm_description data,
                            skill_path = dirname skillMdPath, skill_rawContent = Some content\<rparr>)))
       (\<lambda>_. io_return None)"

fun mapM :: "('a \<Rightarrow> 'b io) \<Rightarrow> 'a list \<Rightarrow> 'b list io" where
  "mapM f [] = io_return []"
| "mapM f (x # xs) = io_bind (f x) (\<lambda>y. io_bind (mapM f xs) (\<lambda>ys. io_return (y # ys)))"

text \<open>
  \<open>findSkillDirs(dir, depth = 0, maxDepth = 5)\<close>. The two promises of the first
  \<open>Promise.all\<close> and the recursive calls of the second are run in the order written.
\<close>

function findSkillDirs :: "fsenv \<Rightarrow> jsstring \<Rightarrow> nat \<Rightarrow> nat \<Rightarrow> jsstring list io" where
  "findSkillDirs env dir depth maxDepth =
     (if depth > maxDepth then io_return []
      else
        io_catch
          (io_bind (hasSkillMd env dir) (\<lambda>hasSkill.
             io_bind (io_catch (readdir env dir) (\<lambda>_. io_return [])) (\<lambda>entries.
               let currentDir = (if hasSkill then [dir] else [])
               in io_bind
                    (mapM (\<lambda>entry. findSkillDirs env (join [dir, dirent_name entry]) (depth + 1) maxDepth)
                       (filter (\<lambda>entry. dirent_isDirectory entry \<and> dirent_name entry \<notin> set SKIP_DIRS)
                          entries))
                    (\<lambda>subDirResults. io_return (currentDir @ concat subDirResults)))))
          (\<lambda>_. io_return []))"
  by pat_completeness auto
termination
  by (relation "measure (\<lambda>(env, dir, depth, maxDepth). Suc maxDepth - depth)") auto

text \<open>
  A loop inside \<open>try { ... } catch { }\<close> that updates variables declared outside
  the \<open>try\<close>: when the body throws, the loop ends, the error is dropped, and the
  variables keep what the earlier rounds gave them. In every such loop of the
  sources the update is the last statement of the body.
\<close>

fun foldTry :: "('s \<Rightarrow> 'a \<Rightarrow> 's io) \<Rightarrow> 'a list \<Rightarrow> 's \<Rightarrow> 's io" where
  "foldTry body [] s = io_return s"
| "foldTry body (x # xs) s =
     (\<lambda>log. case body s x log of
        (Inl e, log') \<Rightarrow> (Inr s, log')
      | (Inr s', log') \<Rightarrow> foldTry body xs s' log')"

fun foldM :: "('s \<Rightarrow> 'a \<Rightarrow> 's io) \<Rightarrow> 'a list \<Rightarrow> 's \<Rightarrow> 's io" where
  "foldM body [] s = io_return s"
| "foldM body (x # xs) s = io_bind (body s x) (foldM body xs)"

text \<open>
  \<open>if (skill && !seenNames.has(skill.name)) { skills.push(skill);
  seenNames.add(skill.name) }\<close> on the pair of \<open>skills\<close> and \<open>seenNames\<close>.
\<close>

definition pushIfNew :: "Skill list \<times> jsstring set \<Rightarrow> Skill option \<Rightarrow> Skill list \<times> jsstring set" where
  "pushIfNew st parsed =
     (case parsed of
        None \<Rightarrow> st
      | Some skill \<Rightarrow>
          if skill_name skill \<notin> snd st then (fst st @ [skill], insert (skill_name skill) (snd st))
          else st)"

definition prioritySearchDirs :: "jsstring \<Rightarrow> jsstring list" where
  "prioritySearchDirs searchPath =
     [searchPath,
      join [searchPath, js ''skills''],
      join [searchPath, js ''skills/.curated''],
      join [searchPath, js ''skills/.experimental''],
      join [searchPath, js ''skills/.system''],
      join [searchPath, js ''.agent/skills''],
      join [searchPath, js ''.agents/skills''],
      join [searchPath, js ''.claude/skills''],
      join [searchPath, js ''.cline/skills''],
      join [searchPath, js ''.codebuddy/skills''],
      join [searchPath, js ''.codex/skills''],
      join [searchPath, js ''.commandcode/skills''],
      join [searchPath, js ''.continue/skills''],
      join [searchPath, js ''.cursor/skills''],
      join [searchPath, js ''.github/skills''],
      join [searchPath, js ''.goose/skills''],
      join [searchPath, js ''.junie/skills''],
      join [searchPath, js ''.kilocode/skills''],
      join [searchPath, js ''.kiro/skills''],
      join [searchPath, js ''.mux/skills''],
      join [searchPath, js ''.neovate/skills''],
      join [searchPath, js ''.opencode/skills''],
      join [searchPath, js ''.openhands/skills''],
      join [searchPath, js ''.pi/skills''],
      join [searchPath, js ''.qoder/skills''],
      join [searchPath, js ''.roo/skills''],
      join [searchPath, js ''.trae/skills''],
      join [searchPath, js ''.windsurf/skills''],
      join [searchPath, js ''.zencoder/skills'']]"

text \<open>The body of the inner loop over the entries of one priority directory.\<close>

definition discoverEntry ::
  "host \<Rightarrow> fsenv \<Rightarrow> bool \<Rightarrow> jsstring \<Rightarrow> Skill list \<times> jsstring set \<Rightarrow> dirent
     \<Rightarrow> (Skill list \<times> jsstring set) io" where
  "discoverEntry h env includeInternal dir st entry =
     (if dirent_isDirectory entry then
        let skillDir = join [dir, dirent_name entry]
        in io_bind (hasSkillMd env skillDir) (\<lambda>has.
             if has then
               io_bind (parseSkillMd h env (join [skillDir, js ''SKILL.md'']) includeInternal)
                 (\<lambda>skill. io_return (pushIfNew st skill))
             else io_return st)
      else io_return st)"

definition discoverDir ::
  "host \<Rightarrow> fsenv \<Rightarrow> bool \<Rightarrow> Skill list \<times> jsstring set \<Rightarrow> jsstring
     \<Rightarrow> (Skill list \<times> jsstring set) io" where
  "discoverDir h env includeInternal st dir =
     io_catch
       (io_bind (readdir env dir) (\<lambda>entries.
          foldTry (discoverEntry h env includeInternal dir) entries st))
       (\<lambda>_. io_return st)"

definition discoverFallback ::
  "host \<Rightarrow> fsenv \<Rightarrow> bool \<Rightarrow> Skill list \<times> jsstring set \<Rightarrow> jsstring
     \<Rightarrow> (Skill list \<times> jsstring set) io" where
  "discoverFallback h env includeInternal st skillDir =
     io_bind (parseSkillMd h env (join [skillDir, js ''SKILL.md'']) includeInternal)
       (\<lambda>skill. io_return (pushIfNew st skill))"

definition discoverSkills ::
  "host \<Rightarrow> fsenv \<Rightarrow> jsstring \<Rightarrow> jsstring option \<Rightarrow> bool \<Rightarrow> Skill list io" where
  "discoverSkills h env basePath subpath includeInternal =
     (let searchPath = (case subpath of
                          None \<Rightarrow> basePath
                        | Some sub \<Rightarrow> if sub = [] then basePath else join [basePath, sub])
      in io_bind (hasSkillMd env searchPath) (\<lambda>direct.
           io_bind
             (if direct then parseSkillMd h env (join [searchPath, js ''SKILL.md'']) includeInternal
              else io_return None)
             (\<lambda>skill.
                case skill of
                  Some sk \<Rightarrow> io_return [sk]
                | None \<Rightarrow>
                    io_bind
                      (foldM (discoverDir h env includeInternal) (prioritySearchDirs searchPath) ([], {}))
                      (\<lambda>st.
                         if length (fst st) = 0 then
                           io_bind (findSkillDirs env searchPath 0 5) (\<lambda>allSkillDirs.
                             io_bind (foldM (discoverFallback h env includeInternal) allSkillDirs st)
                               (\<lambda>st'. io_return (fst st')))
                         else io_return (fst st)))))"

section \<open>installer.ts: listInstalledSkills\<close>

datatype Scope = project | global

record InstalledSkill =
  is_name :: jsstring
  is_description :: jsstring
  is_path :: jsstring
  is_canonicalPath :: jsstring
  is_scope :: Scope
  is_agents :: "AgentType list"

record ListOptions =
  list_global :: "bool option"
  list_cwd :: "jsstring option"
  agentFilter :: "AgentType list option"

text \<open>
  The class \<open>\s\<close> of a regular expression without the \<open>u\<close> flag, and the slug
  \<open>skill.name.toLowerCase().replace(/\s+/g, '-').replace(/[\/\\:\0]/g, '')\<close>.
  The slug goes through \<open>toLowerCase\<close> above, so for a name with cased letters
  beyond ASCII it keeps those letters as they are.
\<close>

definition isWhiteSpace :: "16 word \<Rightarrow> bool" where
  "isWhiteSpace c =
     ((0x09 \<le> c \<and> c \<le> 0x0D) \<or> c = 0x20 \<or> c = 0xA0 \<or> c = 0x1680
      \<or> (0x2000 \<le> c \<and> c \<le> 0x200A) \<or> c = 0x2028 \<or> c = 0x2029 \<or> c = 0x202F
      \<or> c = 0x205F \<or> c = 0x3000 \<or> c = 0xFEFF)"

fun hyphenateSpaces :: "bool \<Rightarrow> jsstring \<Rightarrow> jsstring" where
  "hyphenateSpaces inRun [] = []"
| "hyphenateSpaces inRun (c # cs) =
     (if \<not> isWhiteSpace c then c # hyphenateSpaces False cs
      else if inRun then hyphenateSpaces True cs
      else 0x2D # hyphenateSpaces True cs)"

definition slug :: "jsstring \<Rightarrow> jsstring" where
  "slug name =
     filter (\<lambda>c. c \<noteq> 0x2F \<and> c \<noteq> 0x5C \<and> c \<noteq> 0x3A \<and> c \<noteq> 0)
       (hyphenateSpaces False (toLowerCase name))"

text \<open>\<open>Array.from(new Set(xs))\<close>: each value once, at its first position.\<close>

fun uniqueValues :: "'a list \<Rightarrow> 'a list" where
  "uniqueValues [] = []"
| "uniqueValues (x # xs) = x # filter (\<lambda>y. y \<noteq> x) (uniqueValues xs)"

text \<open>
  Strategy 1: the loop over \<open>uniqueNames\<close>; \<open>join(agentBase, possibleName)\<close>
  stands outside the inner \<open>try\<close>, so with \<open>agentBase\<close> undefined it throws out
  of the loop.
\<close>

fun exactNameMatch :: "host \<Rightarrow> fsenv \<Rightarrow> jsstring option \<Rightarrow> jsstring list \<Rightarrow> bool io" where
  "exactNameMatch h env agentBase [] = io_return False"
| "exactNameMatch h env agentBase (possibleName # rest) =
     (case agentBase of
        None \<Rightarrow> io_throw ERR_INVALID_ARG_TYPE
      | Some base \<Rightarrow>
          let agentSkillDir = join [base, possibleName]
          in if \<not> isPathSafe (process_cwd h) base agentSkillDir
             then exactNameMatch h env agentBase rest
             else io_bind
                    (io_catch (io_then (access env agentSkillDir) (io_return True))
                       (\<lambda>_. io_return False))
                    (\<lambda>found. if found then io_return True
                              else exactNameMatch h env agentBase rest))"

text \<open>Strategy 2: the loop over the entries of the agent's directory.\<close>

fun descriptorMatch :: "host \<Rightarrow> fsenv \<Rightarrow> jsstring \<Rightarrow> Skill \<Rightarrow> dirent list \<Rightarrow> bool io" where
  "descriptorMatch h env base skill [] = io_return False"
| "descriptorMatch h env base skill (agentEntry # rest) =
     (if \<not> dirent_isDirectory agentEntry then descriptorMatch h env base skill rest
      else
        let candidateDir = join [base, dirent_name agentEntry]
        in if \<not> isPathSafe (process_cwd h) base candidateDir
           then descriptorMatch h env base skill rest
           else io_bind
                  (io_catch
                     (let candidateSkillMd = join [candidateDir, js ''SKILL.md'']
                      in io_then (stat env candidateSkillMd)
                           (io_bind (parseSkillMd h env candidateSkillMd False) (\<lambda>candidateSkill.
                              io_return
                                (case candidateSkill of
                                   None \<Rightarrow> False
                                 | Some c \<Rightarrow> skill_name c = skill_name skill))))
                     (\<lambda>_. io_return False))
                  (\<lambda>found. if found then io_return True
                            else descriptorMatch h env base skill rest))"

definition agentHasSkill ::
  "host \<Rightarrow> fsenv \<Rightarrow> jsstring option \<Rightarrow> jsstring \<Rightarrow> Skill \<Rightarrow> bool io" where
  "agentHasSkill h env agentBase entryName skill =
     (let possibleNames = [entryName, sanitizeName (skill_name skill), slug (skill_name skill)];
          uniqueNames = uniqueValues possibleNames
      in io_bind (exactNameMatch h env agentBase uniqueNames) (\<lambda>found.
           if \<not> found then
             (case agentBase of
                None \<Rightarrow> io_return False
              | Some base \<Rightarrow>
                  io_catch
                    (io_bind (readdir env base) (\<lambda>agentEntries.
                       descriptorMatch h env base skill agentEntries))
                    (\<lambda>_. io_return False))
           else io_return True))"

text \<open>
  The loop over \<open>agentsToCheck\<close>; an agent type that is not a key of the table
  makes \<open>agent.globalSkillsDir\<close> a \<open>TypeError\<close>.
\<close>

fun findInstalledAgents ::
  "host \<Rightarrow> fsenv \<Rightarrow> (AgentType \<times> AgentConfig) list \<Rightarrow> bool \<Rightarrow> jsstring \<Rightarrow> jsstring \<Rightarrow> Skill
     \<Rightarrow> AgentType list \<Rightarrow> AgentType list \<Rightarrow> AgentType list io" where
  "findInstalledAgents h env agents isGlobal cwd entryName skill [] installedAgents =
     io_return installedAgents"
| "findInstalledAgents h env agents isGlobal cwd entryName skill (agentType # rest) installedAgents =
     (case map_of agents agentType of
        None \<Rightarrow> io_throw ERR_INVALID_ARG_TYPE
      | Some agent \<Rightarrow>
          io_bind (agentHasSkill h env (agentBaseOf agent isGlobal cwd) entryName skill) (\<lambda>found.
            findInstalledAgents h env agents isGlobal cwd entryName skill rest
              (if found then installedAgents @ [agentType] else installedAgents)))"

text \<open>The body of the loop over the entries of one canonical directory.\<close>

definition listEntry ::
  "host \<Rightarrow> fsenv \<Rightarrow> (AgentType \<times> AgentConfig) list \<Rightarrow> ListOptions \<Rightarrow> bool \<Rightarrow> jsstring
     \<Rightarrow> InstalledSkill list \<Rightarrow> dirent \<Rightarrow> InstalledSkill list io" where
  "listEntry h env agents options isGlobal scopePath installedSkills entry =
     (if \<not> dirent_isDirectory entry then io_return installedSkills
      else
        let cwd = orCwd h (list_cwd options);
            skillDir = join [scopePath, dirent_name entry];
            skillMdPath = join [skillDir, js ''SKILL.md'']
        in io_bind
             (io_catch (io_then (stat env skillMdPath) (io_return True)) (\<lambda>_. io_return False))
             (\<lambda>present.
                if \<not> present then io_return installedSkills
                else
                  io_bind (parseSkillMd h env skillMdPath False) (\<lambda>parsed.
                    case parsed of
                      None \<Rightarrow> io_return installedSkills
                    | Some skill \<Rightarrow>
                        let agentsToCheck = (case agentFilter options of
                                               Some f \<Rightarrow> f
                                             | None \<Rightarrow> map fst agents)
                        in io_bind
                             (findInstalledAgents h env agents isGlobal cwd (dirent_name entry)
                                skill agentsToCheck [])
                             (\<lambda>installedAgents.
                                io_return
                                  (installedSkills @
                                     [\<lparr>is_name = skill_name skill,
                                       is_description = skill_description skill,
                                       is_path = skillDir, is_canonicalPath = skillDir,
                                       is_scope = (if isGlobal then global else project),
                                       is_agents = installedAgents\<rparr>])))))"

definition listScope ::
  "host \<Rightarrow> fsenv \<Rightarrow> (AgentType \<times> AgentConfig) list \<Rightarrow> ListOptions
     \<Rightarrow> InstalledSkill list \<Rightarrow> bool \<times> jsstring \<Rightarrow> InstalledSkill list io" where
  "listScope h env agents options installedSkills scope =
     io_catch
       (io_bind (readdir env (snd scope)) (\<lambda>entries.
          foldTry (listEntry h env agents options (fst scope) (snd scope)) entries installedSkills))
       (\<lambda>_. io_return installedSkills)"

definition listInstalledSkills ::
  "host \<Rightarrow> fsenv \<Rightarrow> (AgentType \<times> AgentConfig) list \<Rightarrow> ListOptions \<Rightarrow> InstalledSkill list io" where
  "listInstalledSkills h env agents options =
     (let cwd = orCwd h (list_cwd options);
          scopes = (case list_global options of
                      None \<Rightarrow> [(False, getCanonicalSkillsDir h False (Some cwd)),
                                (True, getCanonicalSkillsDir h True (Some cwd))]
                    | Some g \<Rightarrow> [(g, getCanonicalSkillsDir h g (Some cwd))])
      in foldM (listScope h env agents options) scopes [])"

section \<open>Notions used to state the properties\<close>

text \<open>
  A piece of a normalized path: not empty, without a separator, and neither \<open>.\<close>
  nor \<open>..\<close>. \<open>slashed\<close> writes pieces with a slash before each.
\<close>

definition cleanSeg :: "jsstring \<Rightarrow> bool" where
  "cleanSeg s = (s \<noteq> [] \<and> CHAR_FORWARD_SLASH \<notin> set s \<and> s \<noteq> js ''.'' \<and> s \<noteq> js ''..'')"

definition slashed :: "jsstring list \<Rightarrow> jsstring" where
  "slashed segs = concat (map (\<lambda>s. CHAR_FORWARD_SLASH # s) segs)"

text \<open>
  The components of a path once it is resolved against the working directory and
  normalized, and the three relations between a base and another path that the
  path guard is meant to tell apart.
\<close>

definition pathComponents :: "jsstring \<Rightarrow> jsstring \<Rightarrow> jsstring list" where
  "pathComponents cwd p = components (normalize (resolve cwd [p]))"

definition descendantOf :: "jsstring \<Rightarrow> jsstring \<Rightarrow> jsstring \<Rightarrow> bool" where
  "descendantOf cwd base p = strict_prefix (pathComponents cwd base) (pathComponents cwd p)"

definition ancestorOf :: "jsstring \<Rightarrow> jsstring \<Rightarrow> jsstring \<Rightarrow> bool" where
  "ancestorOf cwd base p = strict_prefix (pathComponents cwd p) (pathComponents cwd base)"

definition siblingOf :: "jsstring \<Rightarrow> jsstring \<Rightarrow> jsstring \<Rightarrow> bool" where
  "siblingOf cwd base p =
     (let b = pathComponents cwd base; t = pathComponents cwd p
      in b \<noteq> [] \<and> t \<noteq> [] \<and> butlast b = butlast t \<and> last b \<noteq> last t)"

text \<open>A name of 256 units: 254 times \<open>a\<close>, a hyphen, and \<open>b\<close>.\<close>

definition longName :: jsstring where
  "longName = replicate 254 0x61 @ js ''-b''"

text \<open>
  Runs. \<open>newEvents log log'\<close> are the calls a computation added when it took the
  log from \<open>log\<close> to \<open>log'\<close>. A computation is \<open>traced\<close> when it only appends to
  the log and, when it throws, throws the error of the call it made last.
\<close>

definition newEvents :: "log \<Rightarrow> log \<Rightarrow> event list" where
  "newEvents log log' = drop (length log) log'"

definition endsWith :: "thrown \<Rightarrow> log \<Rightarrow> bool" where
  "endsWith e l = (l \<noteq> [] \<and> snd (last l) = Some e)"

definition traced :: "'a io \<Rightarrow> bool" where
  "traced m = (\<forall>log r log'. m log = (r, log') \<longrightarrow>
      prefix log log' \<and> (\<forall>e. r = Inl e \<longrightarrow> log' \<noteq> log \<and> endsWith e log'))"

definition handles :: "thrown \<Rightarrow> 'a io \<Rightarrow> bool" where
  "handles e m = (\<forall>log r log'. endsWith e log \<longrightarrow> m log = (r, log') \<longrightarrow>
      prefix log log' \<and> (\<forall>e'. r = Inl e' \<longrightarrow> endsWith e' log'))"

definition emits :: "(event \<Rightarrow> bool) \<Rightarrow> 'a io \<Rightarrow> bool" where
  "emits Q m = (\<forall>log r log'. m log = (r, log') \<longrightarrow>
      (\<exists>evs. log' = log @ evs \<and> (\<forall>ev \<in> set evs. Q ev)))"

text \<open>
  A call that succeeded and made something exist: a directory, a link, a copy or
  a file. \<open>createsAfter c evs\<close>: nothing is created in \<open>evs\<close> before the directory
  \<open>c\<close> has been created.
\<close>

definition creates :: "event \<Rightarrow> bool" where
  "creates ev =
     (snd ev = None \<and>
      (case fst ev of
         Mkdir _ \<Rightarrow> True | Symlink _ _ \<Rightarrow> True | Cp _ _ _ _ \<Rightarrow> True | WriteFile _ _ \<Rightarrow> True
       | _ \<Rightarrow> False))"

fun createsAfter :: "jsstring \<Rightarrow> event list \<Rightarrow> bool" where
  "createsAfter c [] = True"
| "createsAfter c (ev # evs) = (ev = (Mkdir c, None) \<or> (\<not> creates ev \<and> createsAfter c evs))"

text \<open>A rejected attempt to create a link.\<close>

definition linkRejected :: "event \<Rightarrow> bool" where
  "linkRejected ev = (case ev of (Symlink _ _, Some _) \<Rightarrow> True | _ \<Rightarrow> False)"

text \<open>
  The two directories of an install, as every install function computes them
  from its options and the sanitized name.
\<close>

definition canonicalDirOf :: "host \<Rightarrow> InstallOptions \<Rightarrow> jsstring \<Rightarrow> jsstring" where
  "canonicalDirOf h options rawName =
     join [getCanonicalSkillsDir h (case opt_global options of None \<Rightarrow> False | Some g \<Rightarrow> g)
             (Some (orCwd h (opt_cwd options))),
           sanitizeName rawName]"

definition agentDirOf :: "host \<Rightarrow> AgentConfig \<Rightarrow> InstallOptions \<Rightarrow> jsstring \<Rightarrow> jsstring option" where
  "agentDirOf h agent options rawName =
     (case agentBaseOf agent (case opt_global options of None \<Rightarrow> False | Some g \<Rightarrow> g)
             (orCwd h (opt_cwd options)) of
        None \<Rightarrow> None
      | Some agentBase \<Rightarrow> Some (join [agentBase, sanitizeName rawName]))"

text \<open>
  The branch for symlink mode, which the install functions share word for word
  except for how the content is written: \<open>writeCanonical\<close> into the canonical
  directory, \<open>writeAgent\<close> into the agent directory after a failed link.
\<close>

definition linkedResult :: "jsstring \<Rightarrow> jsstring \<Rightarrow> InstallResult" where
  "linkedResult canonicalDir agentDir =
     \<lparr>success = True, path = agentDir, canonicalPath = Some canonicalDir, mode = SymlinkMode,
      symlinkFailed = None, error = None\<rparr>"

definition fallbackResult :: "jsstring \<Rightarrow> jsstring \<Rightarrow> InstallResult" where
  "fallbackResult canonicalDir agentDir =
     \<lparr>success = True, path = agentDir, canonicalPath = Some canonicalDir, mode = SymlinkMode,
      symlinkFailed = Some True, error = None\<rparr>"

definition symlinkBranch ::
  "host \<Rightarrow> fsenv \<Rightarrow> jsstring \<Rightarrow> jsstring \<Rightarrow> unit io \<Rightarrow> unit io \<Rightarrow> InstallResult io" where
  "symlinkBranch h env canonicalDir agentDir writeCanonical writeAgent =
     io_catch
       (io_then (ensureDirectory env canonicalDir)
          (io_then writeCanonical
             (io_bind (createSymlink h env canonicalDir agentDir) (\<lambda>symlinkCreated.
                if \<not> symlinkCreated then
                  io_then (io_catch (rm env agentDir True True) (\<lambda>_. io_return ()))
                    (io_then (mkdir env agentDir)
                       (io_then writeAgent (io_return (fallbackResult canonicalDir agentDir))))
                else io_return (linkedResult canonicalDir agentDir)))))
       (\<lambda>e. io_return (failure agentDir SymlinkMode (errorMessage e)))"

text \<open>
  \<open>yields P m\<close>: whatever \<open>m\<close> returns satisfies \<open>P\<close>. \<open>installable\<close>: the
  agent is in the table and has a skills directory for the scope, so that
  \<open>agentBase\<close> is defined. \<open>reportedPairs\<close>: the skill and agent of every report,
  in order.
\<close>

definition yields :: "('a \<Rightarrow> bool) \<Rightarrow> 'a io \<Rightarrow> bool" where
  "yields P m = (\<forall>log x l. m log = (Inr x, l) \<longrightarrow> P x)"

definition installable :: "host \<Rightarrow> (AgentType \<times> AgentConfig) list \<Rightarrow> InstallOptions \<Rightarrow> AgentType \<Rightarrow> bool" where
  "installable h agents options agentType =
     (case map_of agents agentType of
        None \<Rightarrow> False
      | Some agent \<Rightarrow>
          agentBaseOf agent (case opt_global options of None \<Rightarrow> False | Some g \<Rightarrow> g)
            (orCwd h (opt_cwd options)) \<noteq> None)"

definition displayNameOf :: "(AgentType \<times> AgentConfig) list \<Rightarrow> AgentType \<Rightarrow> jsstring" where
  "displayNameOf agents agentType =
     (case map_of agents agentType of None \<Rightarrow> [] | Some agent \<Rightarrow> displayName agent)"

definition reportedPairs :: "InstallReport list \<Rightarrow> (jsstring \<times> jsstring) list" where
  "reportedPairs reports = map (\<lambda>r. (report_skill r, report_agent r)) reports"

definition loopOptions :: "bool \<Rightarrow> InstallMode \<Rightarrow> InstallOptions" where
  "loopOptions installGlobally installMode =
     \<lparr>opt_global = Some installGlobally, opt_cwd = None, opt_mode = Some installMode\<rparr>"

text \<open>
  What an install that fell back to copying looks like, seen from the start log and
  the pair of result and final log: the result reports symlink mode; if it
  reports success it flags the failed link and names the canonical directory,
  the agent directory was created, and the run ends with the content written
  into the agent directory; otherwise it carries the message of the error that
  the last call was rejected with.
\<close>

definition fellBack ::
  "log \<Rightarrow> (thrown + InstallResult) \<times> log \<Rightarrow> jsstring \<Rightarrow> (jsstring \<Rightarrow> unit io) \<Rightarrow> bool" where
  "fellBack log run canonicalDir writeAgent =
     (\<exists>r. fst run = Inr r \<and> mode r = SymlinkMode \<and>
        (if success r then
           symlinkFailed r = Some True \<and> error r = None \<and> canonicalPath r = Some canonicalDir
           \<and> (Mkdir (path r), None) \<in> set (newEvents log (snd run))
           \<and> (\<exists>l. prefix log l \<and> writeAgent (path r) l = (Inr (), snd run))
         else \<exists>e. error r = Some (errorMessage e) \<and> endsWith e (snd run)))"

text \<open>
  How an install that returned ended, seen the same way: with success and no
  error; or refused by the path guard before any call; or with the message of
  the error that the last call of the run was rejected with.
\<close>

definition reported :: "log \<Rightarrow> (thrown + InstallResult) \<times> log \<Rightarrow> bool" where
  "reported log run =
     (\<exists>r. fst run = Inr r \<and>
        (if success r then error r = None
         else (error r = Some traversalMessage \<and> snd run = log)
            \<or> (\<exists>e. error r = Some (errorMessage e) \<and> snd run \<noteq> log \<and> endsWith e (snd run))))"

text \<open>
  The calls \<open>copyDirectory\<close> may make, and the environment in which the excluded
  entries of every directory do not exist.
\<close>

definition copyCall :: "event \<Rightarrow> bool" where
  "copyCall ev =
     (case fst ev of
        Mkdir _ \<Rightarrow> True | Readdir _ \<Rightarrow> True | Cp _ _ dereference recursive \<Rightarrow> dereference \<and> recursive
      | _ \<Rightarrow> False)"

definition withoutExcluded :: "fsenv \<Rightarrow> fsenv" where
  "withoutExcluded env =
     env\<lparr>fs_readdir := (\<lambda>log p.
            case fs_readdir env log p of
              Inl e \<Rightarrow> Inl e
            | Inr entries \<Rightarrow>
                Inr (filter (\<lambda>entry. \<not> isExcluded (dirent_name entry) (dirent_isDirectory entry))
                       entries))\<rparr>"

text \<open>
  \<open>total m\<close>: \<open>m\<close> returns from every log, it never throws. \<open>seenInv\<close>: what the
  discovery keeps true of the pair of \<open>skills\<close> and \<open>seenNames\<close>. \<open>candidates\<close>:
  the descriptors that parsed, in the order met.
\<close>

definition total :: "'a io \<Rightarrow> bool" where
  "total m = (\<forall>log. \<exists>x l. m log = (Inr x, l))"

definition seenInv :: "Skill list \<times> jsstring set \<Rightarrow> bool" where
  "seenInv st = (distinct (map skill_name (fst st)) \<and> set (map skill_name (fst st)) = snd st)"

definition candidates :: "Skill option list \<Rightarrow> Skill list" where
  "candidates parsed = concat (map (\<lambda>p. case p of None \<Rightarrow> [] | Some s \<Rightarrow> [s]) parsed)"

text \<open>\<open>keepFirst\<close>: of the skills with one name, the first; the others dropped.\<close>

fun keepFirst :: "Skill list \<Rightarrow> Skill list" where
  "keepFirst [] = []"
| "keepFirst (s # ss) = s # filter (\<lambda>t. skill_name t \<noteq> skill_name s) (keepFirst ss)"

section \<open>A concrete host and file system\<close>

text \<open>
  A small world to run the functions in: the link call is refused, nothing can
  be \<open>access\<close>ed, the skill source holds a descriptor, three entries of the noise
  set and a subdirectory, the global canonical store holds one skill, and a
  repository holds two directories whose descriptors declare the same name. The
  parser takes the whole content as the name.
\<close>

definition EPERM :: thrown where
  "EPERM = ErrorObject (Some (js ''EPERM'')) (js ''EPERM: operation not permitted, symlink'')"

definition ENOENT :: thrown where
  "ENOENT = ErrorObject (Some (js ''ENOENT'')) (js ''ENOENT: no such file or directory'')"

definition demoHost :: host where
  "demoHost =
     \<lparr>process_cwd = js ''/work'', homedir = js ''/home/u'', pathLevels = 8,
      INSTALL_INTERNAL_SKILLS = None,
      matter = (\<lambda>content.
        Inr \<lparr>fm_name = content, fm_description = js ''A skill'', fm_internal = False\<rparr>)\<rparr>"

definition demoAgents :: "(AgentType \<times> AgentConfig) list" where
  "demoAgents =
     [(js ''claude-code'',
       \<lparr>agent_name = js ''claude-code'', displayName = js ''Claude Code'',
        skillsDir = js ''.claude/skills'', globalSkillsDir = Some (js ''/home/u/.claude/skills'')\<rparr>),
      (js ''replit'',
       \<lparr>agent_name = js ''replit'', displayName = js ''Replit'',
        skillsDir = js ''.agent/skills'', globalSkillsDir = None\<rparr>)]"

definition demoFs :: fsenv where
  "demoFs =
     \<lparr>fs_unit = (\<lambda>log call. case call of
                   Symlink _ _ \<Rightarrow> Some EPERM
                 | Access _ \<Rightarrow> Some ENOENT
                 | _ \<Rightarrow> None),
      fs_lstat = (\<lambda>log p. Inl ENOENT),
      fs_readlink = (\<lambda>log p. Inl ENOENT),
      fs_readdir = (\<lambda>log p.
        if p = js ''/tmp/repo/foo'' then
          Inr [Dirent (js ''SKILL.md'') False, Dirent (js ''README.md'') False,
               Dirent (js ''_draft'') False, Dirent (js ''.git'') True,
               Dirent (js ''scripts'') True]
        else if p = js ''/tmp/repo/foo/scripts'' then Inr [Dirent (js ''run.sh'') False]
        else if p = js ''/home/u/.agents/skills'' then Inr [Dirent (js ''foo'') True]
        else if p = js ''/repo'' then Inr [Dirent (js ''a'') True, Dirent (js ''b'') True]
        else Inl ENOENT),
      fs_stat = (\<lambda>log p. if p = js ''/repo/SKILL.md'' then Inl ENOENT else Inr True),
      fs_readFile = (\<lambda>log p.
        if p = js ''/repo/a/SKILL.md'' \<or> p = js ''/repo/b/SKILL.md'' then Inr (js ''dup'')
        else Inr (js ''foo''))\<rparr>"

text \<open>The same world with the agent's skill directory not writable.\<close>

definition EACCES :: thrown where
  "EACCES = ErrorObject (Some (js ''EACCES'')) (js ''EACCES: permission denied, mkdir'')"

definition lockedFs :: fsenv where
  "lockedFs =
     demoFs\<lparr>fs_unit := (\<lambda>log call. case call of
                Symlink _ _ \<Rightarrow> Some EPERM
              | Mkdir p \<Rightarrow> if p = js ''/work/.claude/skills/foo'' then Some EACCES else None
              | _ \<Rightarrow> None)\<rparr>"

definition foo :: Skill where
  "foo = \<lparr>skill_name = js ''foo'', skill_description = js ''A skill'',
          skill_path = js ''/tmp/repo/foo'', skill_rawContent = None\<rparr>"

definition remoteFoo :: RemoteSkill where
  "remoteFoo = \<lparr>remote_name = js ''Foo'', remote_description = js ''A skill'',
                remote_content = js ''foo'', remote_installName = js ''foo''\<rparr>"

definition symlinkInstall :: InstallOptions where
  "symlinkInstall = \<lparr>opt_global = None, opt_cwd = None, opt_mode = Some SymlinkMode\<rparr>"

definition copyInstall :: InstallOptions where
  "copyInstall = \<lparr>opt_global = None, opt_cwd = None, opt_mode = Some CopyMode\<rparr>"

definition globalInstall :: InstallOptions where
  "globalInstall = \<lparr>opt_global = Some True, opt_cwd = None, opt_mode = Some SymlinkMode\<rparr>"

definition demoFiles :: "(jsstring \<times> jsstring) list" where
  "demoFiles =
     [(js ''SKILL.md'', js ''foo''),
      (js ''../../outside.txt'', js ''x''),
      (js ''ref/notes.md'', js ''n'')]"

section \<open>Properties of the path functions\<close>

lemma splitPath_nonempty: "splitPath s \<noteq> []"
  by (induction s) (auto split: list.splits)

lemma splitPath_slashfree: "seg \<in> set (splitPath s) \<Longrightarrow> CHAR_FORWARD_SLASH \<notin> set seg"
  by (induction s arbitrary: seg) (auto split: list.splits if_splits)

lemma splitPath_append:
  "CHAR_FORWARD_SLASH \<notin> set s \<Longrightarrow> splitPath (s @ CHAR_FORWARD_SLASH # r) = s # splitPath r"
  by (induction s) (auto split: list.splits)

lemma splitPath_plain: "CHAR_FORWARD_SLASH \<notin> set s \<Longrightarrow> splitPath s = [s]"
  by (induction s) (auto split: list.splits)

lemma joinSegs_Cons: "joinSegs (s # ss) = s @ slashed ss"
  by (induction ss arbitrary: s) (auto simp: slashed_def)

lemma splitPath_slashed:
  "\<forall>s \<in> set segs. CHAR_FORWARD_SLASH \<notin> set s \<Longrightarrow> segs \<noteq> [] \<Longrightarrow> splitPath (slashed segs) = [] # segs"
proof (induction segs)
  case Nil then show ?case by simp
next
  case (Cons a segs)
  show ?case
  proof (cases segs)
    case Nil
    with Cons.prems show ?thesis by (simp add: slashed_def splitPath_plain)
  next
    case (Cons b bs)
    with Cons.IH Cons.prems have "splitPath (slashed segs) = [] # segs" by simp
    moreover have "slashed segs = CHAR_FORWARD_SLASH # joinSegs segs"
      using Cons by (simp add: slashed_def joinSegs_Cons)
    ultimately have "splitPath (joinSegs segs) = segs" by simp
    moreover have "slashed (a # segs) = CHAR_FORWARD_SLASH # (a @ slashed segs)" by (simp add: slashed_def)
    moreover have "slashed segs = CHAR_FORWARD_SLASH # joinSegs segs" by fact
    ultimately show ?thesis using Cons.prems by (simp add: splitPath_append)
  qed
qed

lemma normalizeSegs_clean_id:
  "\<forall>s \<in> set segs. cleanSeg s \<Longrightarrow> normalizeSegs a res segs = rev res @ segs"
  by (induction segs arbitrary: res) (auto simp: cleanSeg_def)

lemma normalizeSegs_False_clean:
  "\<forall>s \<in> set res. cleanSeg s \<Longrightarrow> \<forall>s \<in> set segs. CHAR_FORWARD_SLASH \<notin> set s
    \<Longrightarrow> \<forall>s \<in> set (normalizeSegs False res segs). cleanSeg s"
proof (induction segs arbitrary: res)
  case Nil then show ?case by simp
next
  case (Cons s segs)
  note IH = Cons.IH and prems = Cons.prems
  have segs: "\<forall>s \<in> set segs. CHAR_FORWARD_SLASH \<notin> set s" using prems(2) by simp
  have sfree: "CHAR_FORWARD_SLASH \<notin> set s" using prems(2) by simp
  consider (skip) "s = [] \<or> s = js ''.''" | (up) "s \<noteq> []" "s \<noteq> js ''.''" "s = js ''..''"
    | (keep) "s \<noteq> []" "s \<noteq> js ''.''" "s \<noteq> js ''..''" by blast
  then show ?case
  proof cases
    case skip
    then have "normalizeSegs False res (s # segs) = normalizeSegs False res segs" by auto
    then show ?thesis using IH[OF prems(1) segs] by (simp only:)
  next
    case up
    show ?thesis
    proof (cases res)
      case Nil
      then have "normalizeSegs False res (s # segs) = normalizeSegs False [] segs" using up by simp
      moreover have "\<forall>s\<in>set (normalizeSegs False [] segs). cleanSeg s"
        using IH[of "[]", OF _ segs] by simp
      ultimately show ?thesis by (simp only:)
    next
      case (Cons t ts)
      have ts: "\<forall>s \<in> set ts. cleanSeg s" using prems(1) Cons by simp
      have "normalizeSegs False res (s # segs) = normalizeSegs False res segs
          \<or> normalizeSegs False res (s # segs) = normalizeSegs False ts segs"
        using up Cons by simp
      then show ?thesis using IH[OF prems(1) segs] IH[OF ts segs] by metis
    qed
  next
    case keep
    then have c: "cleanSeg s" using sfree by (simp add: cleanSeg_def)
    have "normalizeSegs False res (s # segs) = normalizeSegs False (s # res) segs"
      using keep by simp
    moreover have "\<forall>x\<in>set (s # res). cleanSeg x" using c prems(1) by simp
    then have "\<forall>x\<in>set (normalizeSegs False (s # res) segs). cleanSeg x"
      by (rule IH[OF _ segs])
    ultimately show ?thesis by (simp only:)
  qed
qed

lemma slashed_takeWhile:
  "CHAR_FORWARD_SLASH \<notin> set b \<Longrightarrow> takeWhile (\<lambda>c. c \<noteq> CHAR_FORWARD_SLASH) (b @ CHAR_FORWARD_SLASH # x) = b"
  by (induction b) auto

lemma slashed_takeWhile2:
  "CHAR_FORWARD_SLASH \<notin> set t \<Longrightarrow> takeWhile (\<lambda>c. c \<noteq> CHAR_FORWARD_SLASH) (t @ slashed ts) = t"
  by (cases ts) (auto simp: slashed_def slashed_takeWhile takeWhile_append1 takeWhile_append2 intro: takeWhile_eq_all_conv[THEN iffD2])

lemma takeWhile_prefix:
  assumes "prefix p q" "p = b @ CHAR_FORWARD_SLASH # x" "CHAR_FORWARD_SLASH \<notin> set b"
  shows "takeWhile (\<lambda>c. c \<noteq> CHAR_FORWARD_SLASH) q = b"
proof -
  from assms(1) obtain z where "q = p @ z" by (auto simp: prefix_def)
  then have "q = b @ CHAR_FORWARD_SLASH # (x @ z)" using assms(2) by simp
  then show ?thesis using assms(3) by (simp add: slashed_takeWhile)
qed

lemma slashed_prefix:
  "\<forall>s \<in> set bs. CHAR_FORWARD_SLASH \<notin> set s \<Longrightarrow> \<forall>s \<in> set ts. CHAR_FORWARD_SLASH \<notin> set s
   \<Longrightarrow> prefix (slashed bs @ [CHAR_FORWARD_SLASH]) (slashed ts) \<longleftrightarrow> strict_prefix bs ts"
proof (induction bs arbitrary: ts)
  case Nil
  then show ?case by (cases ts) (auto simp: slashed_def)
next
  case (Cons b bs)
  note IH = Cons.IH and prems = Cons.prems
  show ?case
  proof (cases ts)
    case Nil
    then show ?thesis by (simp add: slashed_def)
  next
    case (Cons t ts')
    have bf: "CHAR_FORWARD_SLASH \<notin> set b" and tf: "CHAR_FORWARD_SLASH \<notin> set t"
      using prems Cons by auto
    have X: "slashed bs @ [CHAR_FORWARD_SLASH] = CHAR_FORWARD_SLASH # tl (slashed bs @ [CHAR_FORWARD_SLASH])"
      by (cases bs) (auto simp: slashed_def)
    have "prefix (b @ slashed bs @ [CHAR_FORWARD_SLASH]) (t @ slashed ts') \<longleftrightarrow>
          b = t \<and> prefix (slashed bs @ [CHAR_FORWARD_SLASH]) (slashed ts')"
    proof
      assume p: "prefix (b @ slashed bs @ [CHAR_FORWARD_SLASH]) (t @ slashed ts')"
      have "takeWhile (\<lambda>c. c \<noteq> CHAR_FORWARD_SLASH) (t @ slashed ts') = b"
        using takeWhile_prefix[OF p _ bf] X by metis
      then have "b = t" using slashed_takeWhile2[OF tf] by simp
      then show "b = t \<and> prefix (slashed bs @ [CHAR_FORWARD_SLASH]) (slashed ts')" using p by simp
    next
      assume "b = t \<and> prefix (slashed bs @ [CHAR_FORWARD_SLASH]) (slashed ts')"
      then show "prefix (b @ slashed bs @ [CHAR_FORWARD_SLASH]) (t @ slashed ts')" by simp
    qed
    moreover have "prefix (slashed bs @ [CHAR_FORWARD_SLASH]) (slashed ts') \<longleftrightarrow> strict_prefix bs ts'"
      using IH prems Cons by simp
    ultimately show ?thesis using Cons by (auto simp: slashed_def)
  qed
qed

lemma slashed_inj:
  "\<forall>s \<in> set bs. CHAR_FORWARD_SLASH \<notin> set s \<Longrightarrow> \<forall>s \<in> set ts. CHAR_FORWARD_SLASH \<notin> set s
   \<Longrightarrow> slashed bs = slashed ts \<longleftrightarrow> bs = ts"
proof (induction bs arbitrary: ts)
  case Nil
  then show ?case by (cases ts) (auto simp: slashed_def)
next
  case (Cons b bs)
  note IH = Cons.IH and prems = Cons.prems
  show ?case
  proof (cases ts)
    case Nil
    then show ?thesis by (simp add: slashed_def)
  next
    case (Cons t ts')
    have bf: "CHAR_FORWARD_SLASH \<notin> set b" and tf: "CHAR_FORWARD_SLASH \<notin> set t"
      using prems Cons by auto
    have "b @ slashed bs = t @ slashed ts' \<longleftrightarrow> b = t \<and> slashed bs = slashed ts'"
    proof
      assume e: "b @ slashed bs = t @ slashed ts'"
      have "takeWhile (\<lambda>c. c \<noteq> CHAR_FORWARD_SLASH) (b @ slashed bs) = b"
        by (rule slashed_takeWhile2[OF bf])
      then have "b = t" using slashed_takeWhile2[OF tf, of ts'] e by simp
      then show "b = t \<and> slashed bs = slashed ts'" using e by simp
    qed simp
    moreover have "slashed bs = slashed ts' \<longleftrightarrow> bs = ts'" using IH prems Cons by simp
    ultimately show ?thesis using Cons by (auto simp: slashed_def)
  qed
qed


lemma slashed_last:
  "segs \<noteq> [] \<Longrightarrow> \<forall>s \<in> set segs. cleanSeg s \<Longrightarrow> last (slashed segs) \<noteq> CHAR_FORWARD_SLASH"
proof -
  assume ne: "segs \<noteq> []" and cl: "\<forall>s \<in> set segs. cleanSeg s"
  then have l: "cleanSeg (last segs)" by simp
  have "slashed segs = slashed (butlast segs) @ CHAR_FORWARD_SLASH # last segs"
    using append_butlast_last_id[OF ne, symmetric] by (metis (no_types, lifting) slashed_def
      append_Nil2 concat.simps(1) concat.simps(2) concat_append list.simps(8) list.simps(9) map_append)
  then have "last (slashed segs) = last (last segs)" using l by (simp add: cleanSeg_def)
  moreover have "last (last segs) \<in> set (last segs)" using l by (simp add: cleanSeg_def)
  ultimately show ?thesis using l unfolding cleanSeg_def by metis
qed

lemma rendered_cases:
  "CHAR_FORWARD_SLASH # joinSegs segs = (if segs = [] then [CHAR_FORWARD_SLASH] else slashed segs)"
  by (cases segs) (simp_all add: joinSegs_Cons slashed_def)

lemma clean_slashfree: "\<forall>s \<in> set segs. cleanSeg s \<Longrightarrow> \<forall>s \<in> set segs. CHAR_FORWARD_SLASH \<notin> set s"
  by (simp add: cleanSeg_def)

lemma resolve_rendered:
  assumes "isAbsolute cwd"
  shows "\<exists>segs. (\<forall>s \<in> set segs. cleanSeg s) \<and> resolve cwd [p] = CHAR_FORWARD_SLASH # joinSegs segs"
proof -
  have cwd: "cwd \<noteq> []" using assms by (auto simp: isAbsolute_def)
  have "\<exists>q. resolveLoop [p, cwd] [] = (q, True)"
    using assms cwd by simp
  then obtain q where q: "resolveLoop [p, cwd] [] = (q, True)" by blast
  let ?segs = "normalizeSegs False [] (splitPath q)"
  have "\<forall>s \<in> set ?segs. cleanSeg s"
    by (rule normalizeSegs_False_clean) (auto dest: splitPath_slashfree)
  moreover have "resolve cwd [p] = CHAR_FORWARD_SLASH # joinSegs ?segs"
    using q by (simp add: resolve_def normalizeString_def)
  ultimately show ?thesis by blast
qed

lemma normalize_rendered:
  assumes "\<forall>s \<in> set segs. cleanSeg s"
  shows "normalize (CHAR_FORWARD_SLASH # joinSegs segs) = CHAR_FORWARD_SLASH # joinSegs segs"
proof (cases "segs = []")
  case True
  then show ?thesis
    by (simp add: normalize_def normalizeString_def isAbsolute_def CHAR_FORWARD_SLASH_def)
next
  case False
  have r: "CHAR_FORWARD_SLASH # joinSegs segs = slashed segs" using False by (simp add: rendered_cases)
  have sp: "splitPath (slashed segs) = [] # segs"
    using splitPath_slashed[OF clean_slashfree[OF assms] False] .
  have n: "normalizeSegs False [] segs = segs"
    using normalizeSegs_clean_id[OF assms, of False "[]"] by simp
  have j: "joinSegs segs \<noteq> []" using False assms by (cases segs) (auto simp: joinSegs_Cons cleanSeg_def)
  have l: "last (slashed segs) \<noteq> CHAR_FORWARD_SLASH" using slashed_last[OF False assms] .
  have a: "isAbsolute (slashed segs)" using r[symmetric] by (simp add: isAbsolute_def)
  have ne: "slashed segs \<noteq> []" using r[symmetric] by simp
  have "normalize (slashed segs) = CHAR_FORWARD_SLASH # joinSegs segs"
    unfolding normalize_def normalizeString_def sp using j l a ne by (simp add: Let_def n)
  then show ?thesis using r by simp
qed

lemma components_rendered:
  assumes "\<forall>s \<in> set segs. cleanSeg s"
  shows "components (CHAR_FORWARD_SLASH # joinSegs segs) = segs"
proof (cases "segs = []")
  case True
  then show ?thesis by (simp add: components_def)
next
  case False
  have r: "CHAR_FORWARD_SLASH # joinSegs segs = slashed segs" using False by (simp add: rendered_cases)
  have sp: "splitPath (slashed segs) = [] # segs"
    using splitPath_slashed[OF clean_slashfree[OF assms] False] .
  have "filter (\<lambda>s. s \<noteq> []) segs = segs" using assms by (auto simp: cleanSeg_def filter_id_conv)
  then show ?thesis unfolding r components_def sp by simp
qed

lemma rendered_safe:
  assumes b: "\<forall>s \<in> set bs. cleanSeg s" and t: "\<forall>s \<in> set ts. cleanSeg s"
  shows "(prefix ((CHAR_FORWARD_SLASH # joinSegs bs) @ sep) (CHAR_FORWARD_SLASH # joinSegs ts)
           \<or> CHAR_FORWARD_SLASH # joinSegs ts = CHAR_FORWARD_SLASH # joinSegs bs)
         \<longleftrightarrow> (if bs = [] then ts = [] else prefix bs ts)"
proof (cases "bs = []")
  case True
  show ?thesis
  proof (cases ts)
    case Nil
    then show ?thesis using True by simp
  next
    case (Cons u us)
    then have "u \<noteq> []" "CHAR_FORWARD_SLASH \<notin> set u" using t by (auto simp: cleanSeg_def)
    then have "hd (joinSegs ts) \<noteq> CHAR_FORWARD_SLASH" "joinSegs ts \<noteq> []"
      using Cons by (cases u; auto simp: joinSegs_Cons)+
    then show ?thesis using True Cons by (cases "joinSegs ts") (auto simp: sep_def)
  qed
next
  case False
  have rb: "CHAR_FORWARD_SLASH # joinSegs bs = slashed bs" using False by (simp add: rendered_cases)
  show ?thesis
  proof (cases "ts = []")
    case True
    have "length (slashed bs) \<ge> 2" using False b by (cases bs) (auto simp: slashed_def cleanSeg_def Suc_le_eq)
    then show ?thesis using True False unfolding rb
      by (auto simp: sep_def prefix_def dest!: arg_cong[where f = length])
  next
    case F: False
    have rt: "CHAR_FORWARD_SLASH # joinSegs ts = slashed ts" using F by (simp add: rendered_cases)
    show ?thesis unfolding rb rt sep_def
      using slashed_prefix[OF clean_slashfree[OF b] clean_slashfree[OF t]]
            slashed_inj[OF clean_slashfree[OF t] clean_slashfree[OF b]] False
      by (auto simp: strict_prefix_def)
  qed
qed


lemma isPathSafe_components:
  assumes "isAbsolute cwd"
  shows "isPathSafe cwd base target \<longleftrightarrow>
     (if pathComponents cwd base = [] then pathComponents cwd target = []
      else prefix (pathComponents cwd base) (pathComponents cwd target))"
proof -
  obtain bs where bs: "\<forall>s \<in> set bs. cleanSeg s" "resolve cwd [base] = CHAR_FORWARD_SLASH # joinSegs bs"
    using resolve_rendered[OF assms] by blast
  obtain ts where ts: "\<forall>s \<in> set ts. cleanSeg s" "resolve cwd [target] = CHAR_FORWARD_SLASH # joinSegs ts"
    using resolve_rendered[OF assms] by blast
  show ?thesis
    unfolding isPathSafe_def pathComponents_def Let_def bs(2) ts(2)
      normalize_rendered[OF bs(1)] normalize_rendered[OF ts(1)]
      components_rendered[OF bs(1)] components_rendered[OF ts(1)]
    using rendered_safe[OF bs(1) ts(1)] by simp
qed

section \<open>The path guard\<close>

text \<open>
  C5. With both paths resolved and normalized, \<open>isPathSafe\<close> holds exactly when the
  target equals the base or starts with the base followed by the separator. For
  a base other than the root directory this means: it holds for the base itself
  and for every descendant of the base, and fails for every sibling of the base
  (also one whose name begins with the name of the base) and for every ancestor.
\<close>

theorem isPathSafe_guard:
  assumes "isAbsolute cwd" and "pathComponents cwd base \<noteq> []"
  shows "(isPathSafe cwd base target \<longleftrightarrow>
            normalize (resolve cwd [target]) = normalize (resolve cwd [base])
            \<or> prefix (normalize (resolve cwd [base]) @ sep) (normalize (resolve cwd [target])))
       \<and> (isPathSafe cwd base target \<longleftrightarrow>
            prefix (pathComponents cwd base) (pathComponents cwd target))
       \<and> isPathSafe cwd base base
       \<and> (descendantOf cwd base d \<longrightarrow> isPathSafe cwd base d)
       \<and> (siblingOf cwd base s \<longrightarrow> \<not> isPathSafe cwd base s)
       \<and> (ancestorOf cwd base a \<longrightarrow> \<not> isPathSafe cwd base a)"
proof -
  have iff: "\<And>p. isPathSafe cwd base p \<longleftrightarrow> prefix (pathComponents cwd base) (pathComponents cwd p)"
    using isPathSafe_components[OF assms(1)] assms(2) by simp
  have sib: "siblingOf cwd base s \<Longrightarrow> \<not> prefix (pathComponents cwd base) (pathComponents cwd s)"
  proof
    assume s: "siblingOf cwd base s" and p: "prefix (pathComponents cwd base) (pathComponents cwd s)"
    let ?b = "pathComponents cwd base" and ?t = "pathComponents cwd s"
    from s have ne: "?b \<noteq> []" "?t \<noteq> []" and bl: "butlast ?b = butlast ?t" and l: "last ?b \<noteq> last ?t"
      by (simp_all add: siblingOf_def Let_def)
    have "length ?b = length ?t" using bl ne
      by (metis length_butlast One_nat_def Suc_pred length_greater_0_conv)
    with p have "?b = ?t" by (auto simp: prefix_def)
    with l show False by simp
  qed
  have anc: "ancestorOf cwd base a \<Longrightarrow> \<not> prefix (pathComponents cwd base) (pathComponents cwd a)"
    by (auto simp: ancestorOf_def strict_prefix_def)
  have desc: "descendantOf cwd base d \<Longrightarrow> prefix (pathComponents cwd base) (pathComponents cwd d)"
    by (simp add: descendantOf_def strict_prefix_def)
  show ?thesis
    using iff sib anc desc by (auto simp: isPathSafe_def Let_def)
qed

theorem isPathSafe_guard_witness:
  "isAbsolute (js ''/work'') \<and> pathComponents (js ''/work'') (js ''/a/foo'') \<noteq> []
   \<and> descendantOf (js ''/work'') (js ''/a/foo'') (js ''/a/foo/x/../bar'')
   \<and> siblingOf (js ''/work'') (js ''/a/foo'') (js ''/a/foobar'')
   \<and> ancestorOf (js ''/work'') (js ''/a/foo'') (js ''/a'')
   \<and> isPathSafe (js ''/work'') (js ''/a/foo'') (js ''/a/foo'')
   \<and> isPathSafe (js ''/work'') (js ''/a/foo'') (js ''/a/foo/x/../bar'')
   \<and> \<not> isPathSafe (js ''/work'') (js ''/a/foo'') (js ''/a/foobar'')
   \<and> \<not> isPathSafe (js ''/work'') (js ''/a/foo'') (js ''/a'')"
proof -
  have h1: "isAbsolute (js ''/work'')" by code_simp
  have h2: "pathComponents (js ''/work'') (js ''/a/foo'') \<noteq> []" by code_simp
  have d: "descendantOf (js ''/work'') (js ''/a/foo'') (js ''/a/foo/x/../bar'')" by code_simp
  have s: "siblingOf (js ''/work'') (js ''/a/foo'') (js ''/a/foobar'')" by code_simp
  have a: "ancestorOf (js ''/work'') (js ''/a/foo'') (js ''/a'')" by code_simp
  note g = isPathSafe_guard[OF h1 h2, of "js ''/a/foo''" "js ''/a/foo/x/../bar''" "js ''/a/foobar''" "js ''/a''"]
  show ?thesis using h1 h2 d s a g by blast
qed

text \<open>
  With the root directory as base the guard rejects every proper descendant:
  the normalized root is already the separator, so ``base followed by the
  separator'' is a double slash, which no normalized path starts with.
\<close>

theorem isPathSafe_root_counterexample:
  "descendantOf (js ''/work'') (js ''/'') (js ''/foo'')
   \<and> \<not> isPathSafe (js ''/work'') (js ''/'') (js ''/foo'')"
  by code_simp

section \<open>The name sanitizer\<close>

text \<open>
  C3. The sanitized name is meant never to end with a dot or a hyphen. The
  trailing run is removed before the cut at 255 units, so the cut can expose one:
  for 254 times \<open>a\<close> followed by \<open>-b\<close> the result is 255 units long and ends with
  the hyphen, which is then not an internal one.
\<close>

theorem sanitizeName_ends_with_hyphen:
  "sanitizeName longName = replicate 254 0x61 @ js ''-''
   \<and> length (sanitizeName longName) = 255
   \<and> last (sanitizeName longName) = 0x2D"
  by code_simp

text \<open>
  C2. Sanitizing is meant to be idempotent. On the same name a second pass
  removes the hyphen the cut exposed, so the second result differs from the first.
\<close>

theorem sanitizeName_not_idempotent:
  "sanitizeName (sanitizeName longName) = replicate 254 0x61
   \<and> sanitizeName (sanitizeName longName) \<noteq> sanitizeName longName"
  by code_simp
section \<open>Reasoning about runs\<close>

lemma io_return_apply [simp]: "io_return x log = (Inr x, log)" by (simp add: io_return_def)
lemma io_throw_apply [simp]: "io_throw e log = (Inl e, log)" by (simp add: io_throw_def)
lemma io_bind_apply: "io_bind m f log = (case m log of (Inl e, l) \<Rightarrow> (Inl e, l) | (Inr x, l) \<Rightarrow> f x l)"
  by (simp add: io_bind_def)
lemma io_then_apply: "io_then m k log = (case m log of (Inl e, l) \<Rightarrow> (Inl e, l) | (Inr x, l) \<Rightarrow> k l)"
  by (simp add: io_then_def io_bind_def)
lemma io_catch_apply: "io_catch m h log = (case m log of (Inl e, l) \<Rightarrow> h e l | (Inr x, l) \<Rightarrow> (Inr x, l))"
  by (simp add: io_catch_def)
lemma query_apply: "query ask call log =
  (case ask log of Inl e \<Rightarrow> (Inl e, log @ [(call, Some e)]) | Inr x \<Rightarrow> (Inr x, log @ [(call, None)]))"
  by (simp add: query_def)

lemma io_bind_cases:
  assumes "io_bind m f log = (r, log')"
  obtains (throw) e where "m log = (Inl e, log')" "r = Inl e"
        | (go) x l where "m log = (Inr x, l)" "f x l = (r, log')"
  using assms by (auto simp: io_bind_apply split: prod.splits sum.splits)

lemma io_then_cases:
  assumes "io_then m k log = (r, log')"
  obtains (throw) e where "m log = (Inl e, log')" "r = Inl e"
        | (go) x l where "m log = (Inr x, l)" "k l = (r, log')"
  using assms by (auto simp: io_then_apply split: prod.splits sum.splits)

lemma io_catch_cases:
  assumes "io_catch m h log = (r, log')"
  obtains (caught) e l where "m log = (Inl e, l)" "h e l = (r, log')"
        | (ok) x where "m log = (Inr x, log')" "r = Inr x"
  using assms by (auto simp: io_catch_apply split: prod.splits sum.splits)

subsection \<open>traced\<close>

lemma traced_return [intro!, simp]: "traced (io_return x)"
  by (simp add: traced_def)

lemma traced_query [intro!, simp]: "traced (query ask call)"
  by (auto simp: traced_def query_apply endsWith_def split: sum.splits)

lemma traced_bind [intro!]:
  assumes "traced m" "\<And>x. traced (f x)"
  shows "traced (io_bind m f)"
  unfolding traced_def
proof (intro allI impI)
  fix log r log' assume "io_bind m f log = (r, log')"
  then show "prefix log log' \<and> (\<forall>e. r = Inl e \<longrightarrow> log' \<noteq> log \<and> endsWith e log')"
  proof (cases rule: io_bind_cases)
    case (throw e)
    then show ?thesis using assms(1) by (auto simp: traced_def)
  next
    case (go x l)
    have 1: "prefix log l" using go(1) assms(1) by (auto simp: traced_def)
    have 2: "prefix l log'" "\<forall>e. r = Inl e \<longrightarrow> log' \<noteq> l \<and> endsWith e log'"
      using go(2) assms(2)[of x] by (auto simp: traced_def)
    from 1 2 show ?thesis by (auto simp: prefix_def)
  qed
qed

lemma traced_then [intro!]: "traced m \<Longrightarrow> traced k \<Longrightarrow> traced (io_then m k)"
  by (auto simp: io_then_def)

lemma handles_traced: "traced m \<Longrightarrow> handles e m"
  by (auto simp: traced_def handles_def)

lemma handles_throw [simp]: "handles e (io_throw e)"
  by (simp add: handles_def)

lemma traced_catch:
  assumes "traced m" "\<And>e. handles e (h e)"
  shows "traced (io_catch m h)"
  unfolding traced_def
proof (intro allI impI)
  fix log r log' assume "io_catch m h log = (r, log')"
  then show "prefix log log' \<and> (\<forall>e. r = Inl e \<longrightarrow> log' \<noteq> log \<and> endsWith e log')"
  proof (cases rule: io_catch_cases)
    case (caught e l)
    have 1: "prefix log l" "l \<noteq> log" "endsWith e l" using caught(1) assms(1) by (auto simp: traced_def)
    have 2: "prefix l log'" "\<forall>e'. r = Inl e' \<longrightarrow> endsWith e' log'"
      using caught(2) assms(2)[of e] 1(3) by (auto simp: handles_def)
    from 1 2 show ?thesis by (auto simp: prefix_def)
  next
    case (ok x)
    then show ?thesis using assms(1) by (auto simp: traced_def)
  qed
qed

lemma traced_catch_traced [intro!]:
  "traced m \<Longrightarrow> (\<And>e. traced (h e)) \<Longrightarrow> traced (io_catch m h)"
  by (rule traced_catch) (auto intro: handles_traced)

lemma traced_forEach [intro!]: "(\<And>x. traced (body x)) \<Longrightarrow> traced (forEach xs body)"
  by (induction xs) auto

lemma traced_if [intro!]: "traced a \<Longrightarrow> traced b \<Longrightarrow> traced (if c then a else b)"
  by simp

lemma traced_let [intro!]: "traced (f x) \<Longrightarrow> traced (Let x f)"
  by simp

lemma traced_prims [intro!, simp]:
  "traced (perform env call)" "traced (mkdir env p)" "traced (rm env p r f)" "traced (symlink env t p)"
  "traced (cp env s d a b)" "traced (writeFile env p c)" "traced (access env p)" "traced (lstat env p)"
  "traced (readlink env p)" "traced (readdir env p)" "traced (stat env p)" "traced (readFile env p)"
  by (simp_all add: perform_def mkdir_def rm_def symlink_def cp_def writeFile_def access_def
      lstat_def readlink_def readdir_def stat_def readFile_def)

lemma traced_copyDirectory [intro!, simp]: "traced (copyDirectory levels env src dest)"
proof (induction levels arbitrary: src dest)
  case 0 show ?case by simp
next
  case (Suc levels)
  show ?case by (auto intro!: Suc)
qed

lemma traced_ensureDirectory [intro!, simp]: "traced (ensureDirectory env p)"
  unfolding ensureDirectory_def
  by (intro traced_then traced_catch traced_bind traced_prims)
     (auto intro: handles_traced split: thrown.splits option.splits)

lemma returns_catch:
  "(\<And>e. \<exists>g. h e = io_return g) \<Longrightarrow> \<exists>x l. io_catch m h log = (Inr x, l)"
  by (cases "m log"; cases "fst (m log)") (auto simp: io_catch_apply, metis io_return_apply)

lemma createSymlink_returns: "\<exists>b l. createSymlink h env target linkPath log = (Inr b, l)"
  unfolding createSymlink_def by (rule returns_catch) auto

lemma newEvents_append [simp]: "newEvents log (log @ evs) = evs"
  by (simp add: newEvents_def)

lemma newEvents_self [simp]: "newEvents log log = []"
  by (simp add: newEvents_def)

lemma newEvents_trans:
  "prefix log l \<Longrightarrow> prefix l log' \<Longrightarrow> newEvents log log' = newEvents log l @ newEvents l log'"
  by (auto simp: prefix_def newEvents_def)

lemma traced_prefix: "traced m \<Longrightarrow> m log = (r, log') \<Longrightarrow> prefix log log'"
  by (auto simp: traced_def)

lemma traced_throws: "traced m \<Longrightarrow> m log = (Inl e, log') \<Longrightarrow> log' \<noteq> log \<and> endsWith e log'"
  by (auto simp: traced_def)

lemma createsAfter_mono:
  "createsAfter c xs \<Longrightarrow> (Mkdir c, None) \<in> set xs \<Longrightarrow> createsAfter c (xs @ ys)"
  by (induction xs) auto

lemmas io_apply = io_then_apply io_catch_apply io_bind_apply query_apply
lemmas prim_defs = perform_def mkdir_def rm_def symlink_def cp_def writeFile_def access_def
  lstat_def readlink_def readdir_def stat_def readFile_def

lemma ensureDirectory_events:
  assumes "ensureDirectory env c log = (r, log')"
  shows "createsAfter c (newEvents log log')
       \<and> (r = Inr () \<longrightarrow> (Mkdir c, None) \<in> set (newEvents log log'))"
  using assms unfolding ensureDirectory_def prim_defs
  by (auto simp: io_apply creates_def split: sum.splits option.splits thrown.splits if_splits prod.splits)

lemma guarded_phase:
  assumes "traced k" "io_then (ensureDirectory env c) k log = (r, log')"
  shows "createsAfter c (newEvents log log')"
  using assms(2)
proof (cases rule: io_then_cases)
  case (throw e)
  then show ?thesis using ensureDirectory_events by blast
next
  case (go x l)
  have 1: "prefix log l" using go(1) traced_prefix[OF traced_ensureDirectory] by blast
  have 2: "prefix l log'" using go(2) traced_prefix[OF assms(1)] by blast
  have "createsAfter c (newEvents log l)" "(Mkdir c, None) \<in> set (newEvents log l)"
    using ensureDirectory_events[OF go(1)] by auto
  then show ?thesis unfolding newEvents_trans[OF 1 2] by (rule createsAfter_mono)
qed

lemma catch_return_events:
  assumes "io_catch m (\<lambda>e. io_return (g e)) log = (r, log')"
  shows "\<exists>r0. m log = (r0, log')"
  using assms by (auto simp: io_catch_apply split: prod.splits sum.splits)

lemma traced_createSymlink [intro!, simp]: "traced (createSymlink h env target linkPath)"
  unfolding createSymlink_def Let_def
  by (intro traced_catch_traced traced_if traced_bind traced_then traced_return traced_prims)

lemma symlink_branch:
  assumes "io_catch (io_then (ensureDirectory env c) k) (\<lambda>e. io_return (g e)) log = (r, log')"
    and "traced k"
  shows "createsAfter c (newEvents log log')"
proof -
  from catch_return_events[OF assms(1)] obtain r0
    where "io_then (ensureDirectory env c) k log = (r0, log')" by blast
  from guarded_phase[OF assms(2) this] show ?thesis .
qed

lemma installMode_cases:
  "opt_mode options \<noteq> Some CopyMode \<Longrightarrow>
   (case opt_mode options of None \<Rightarrow> SymlinkMode | Some m \<Rightarrow> m) = SymlinkMode"
  by (cases "opt_mode options") (auto intro: InstallMode.exhaust)

lemmas traced_intros = traced_then traced_bind traced_if traced_catch_traced traced_return
  traced_prims traced_copyDirectory traced_createSymlink traced_ensureDirectory


lemma installSkill_symlink:
  assumes "map_of agents agentType = Some agent"
    and "agentBaseOf agent (case opt_global options of None \<Rightarrow> False | Some g \<Rightarrow> g)
           (orCwd h (opt_cwd options)) = Some agentBase"
    and m: "opt_mode options \<noteq> Some CopyMode"
  shows "installSkillForAgent h env agents skill agentType options =
     (let canonicalBase = getCanonicalSkillsDir h (case opt_global options of None \<Rightarrow> False | Some g \<Rightarrow> g)
                            (Some (orCwd h (opt_cwd options)));
          c = canonicalDirOf h options (getSkillDisplayName skill);
          a = join [agentBase, sanitizeName (getSkillDisplayName skill)]
      in if \<not> isPathSafe (process_cwd h) canonicalBase c \<or> \<not> isPathSafe (process_cwd h) agentBase a
         then io_return (failure a SymlinkMode traversalMessage)
         else symlinkBranch h env c a
                (copyDirectory (pathLevels h) env (skill_path skill) c)
                (copyDirectory (pathLevels h) env (skill_path skill) a))"
  unfolding installSkillForAgent_def Let_def assms(1,2) option.case installMode_cases[OF m]
    canonicalDirOf_def getSkillDisplayName_def symlinkBranch_def linkedResult_def fallbackResult_def
  by simp

lemma installRemote_symlink:
  assumes "map_of agents agentType = Some agent"
    and "agentBaseOf agent (case opt_global options of None \<Rightarrow> False | Some g \<Rightarrow> g)
           (orCwd h (opt_cwd options)) = Some agentBase"
    and m: "opt_mode options \<noteq> Some CopyMode"
  shows "installRemoteSkillForAgent h env agents skill agentType options =
     (let canonicalBase = getCanonicalSkillsDir h (case opt_global options of None \<Rightarrow> False | Some g \<Rightarrow> g)
                            (Some (orCwd h (opt_cwd options)));
          c = canonicalDirOf h options (remote_installName skill);
          a = join [agentBase, sanitizeName (remote_installName skill)]
      in if \<not> isPathSafe (process_cwd h) canonicalBase c \<or> \<not> isPathSafe (process_cwd h) agentBase a
         then io_return (failure a SymlinkMode traversalMessage)
         else symlinkBranch h env c a
                (writeFile env (join [c, js ''SKILL.md'']) (remote_content skill))
                (writeFile env (join [a, js ''SKILL.md'']) (remote_content skill)))"
  unfolding installRemoteSkillForAgent_def Let_def assms(1,2) option.case installMode_cases[OF m]
    canonicalDirOf_def symlinkBranch_def linkedResult_def fallbackResult_def
  by simp

lemma install_no_agent:
  "map_of agents agentType = None \<Longrightarrow>
     installSkillForAgent h env agents skill agentType options = io_throw ERR_INVALID_ARG_TYPE"
  "map_of agents agentType = None \<Longrightarrow>
     installRemoteSkillForAgent h env agents rskill agentType options = io_throw ERR_INVALID_ARG_TYPE"
  by (simp_all add: installSkillForAgent_def installRemoteSkillForAgent_def)

lemma install_no_base:
  "map_of agents agentType = Some agent \<Longrightarrow>
   agentBaseOf agent (case opt_global options of None \<Rightarrow> False | Some g \<Rightarrow> g)
           (orCwd h (opt_cwd options)) = None \<Longrightarrow>
     installSkillForAgent h env agents skill agentType options = io_throw ERR_INVALID_ARG_TYPE"
  "map_of agents agentType = Some agent \<Longrightarrow>
   agentBaseOf agent (case opt_global options of None \<Rightarrow> False | Some g \<Rightarrow> g)
           (orCwd h (opt_cwd options)) = None \<Longrightarrow>
     installRemoteSkillForAgent h env agents rskill agentType options = io_throw ERR_INVALID_ARG_TYPE"
  by (simp_all add: installSkillForAgent_def installRemoteSkillForAgent_def Let_def)

lemma symlinkBranch_createsAfter:
  assumes "symlinkBranch h env c a X Y log = (r, log')" "traced X" "traced Y"
  shows "createsAfter c (newEvents log log')"
  using assms(1) unfolding symlinkBranch_def
  by (rule symlink_branch) (intro traced_intros assms(2,3))

text \<open>Every run of an install function in symlink mode is of one of three kinds.\<close>

lemma installSkill_kinds:
  assumes m: "opt_mode options \<noteq> Some CopyMode"
  obtains (thrown) "installSkillForAgent h env agents skill agentType options = io_throw ERR_INVALID_ARG_TYPE"
  | (unsafe) a where "installSkillForAgent h env agents skill agentType options
                        = io_return (failure a SymlinkMode traversalMessage)"
  | (branch) a where
      "installSkillForAgent h env agents skill agentType options
         = symlinkBranch h env (canonicalDirOf h options (getSkillDisplayName skill)) a
             (copyDirectory (pathLevels h) env (skill_path skill)
                (canonicalDirOf h options (getSkillDisplayName skill)))
             (copyDirectory (pathLevels h) env (skill_path skill) a)"
proof (cases "map_of agents agentType")
  case None
  then show ?thesis using thrown install_no_agent(1) by blast
next
  case (Some agent)
  show ?thesis
  proof (cases "agentBaseOf agent (case opt_global options of None \<Rightarrow> False | Some g \<Rightarrow> g)
                  (orCwd h (opt_cwd options))")
    case None
    then show ?thesis using thrown install_no_base(1)[OF Some] by blast
  next
    case base: (Some agentBase)
    show ?thesis
      using installSkill_symlink[OF Some base m, of env skill] unsafe branch
      by (auto simp: Let_def split: if_splits)
  qed
qed

lemma installRemote_kinds:
  assumes m: "opt_mode options \<noteq> Some CopyMode"
  obtains (thrown) "installRemoteSkillForAgent h env agents skill agentType options = io_throw ERR_INVALID_ARG_TYPE"
  | (unsafe) a where "installRemoteSkillForAgent h env agents skill agentType options
                        = io_return (failure a SymlinkMode traversalMessage)"
  | (branch) a where
      "installRemoteSkillForAgent h env agents skill agentType options
         = symlinkBranch h env (canonicalDirOf h options (remote_installName skill)) a
             (writeFile env (join [canonicalDirOf h options (remote_installName skill), js ''SKILL.md''])
                (remote_content skill))
             (writeFile env (join [a, js ''SKILL.md'']) (remote_content skill))"
proof (cases "map_of agents agentType")
  case None
  then show ?thesis using thrown install_no_agent(2) by blast
next
  case (Some agent)
  show ?thesis
  proof (cases "agentBaseOf agent (case opt_global options of None \<Rightarrow> False | Some g \<Rightarrow> g)
                  (orCwd h (opt_cwd options))")
    case None
    then show ?thesis using thrown install_no_base(2)[OF Some] by blast
  next
    case base: (Some agentBase)
    show ?thesis
      using installRemote_symlink[OF Some base m, of env skill] unsafe branch
      by (auto simp: Let_def split: if_splits)
  qed
qed

lemma installSkill_createsAfter:
  assumes m: "opt_mode options \<noteq> Some CopyMode"
  shows "createsAfter (canonicalDirOf h options (getSkillDisplayName skill))
           (newEvents log (snd (installSkillForAgent h env agents skill agentType options log)))"
  using m
proof (cases rule: installSkill_kinds[where h=h and env=env and agents=agents and skill=skill
      and agentType=agentType and options=options])
  case thrown then show ?thesis by simp
next
  case (unsafe a) then show ?thesis by simp
next
  case (branch a)
  show ?thesis unfolding branch
    by (rule symlinkBranch_createsAfter[OF surjective_pairing]) simp_all
qed

lemma installRemote_createsAfter:
  assumes m: "opt_mode options \<noteq> Some CopyMode"
  shows "createsAfter (canonicalDirOf h options (remote_installName skill))
           (newEvents log (snd (installRemoteSkillForAgent h env agents skill agentType options log)))"
  using m
proof (cases rule: installRemote_kinds[where h=h and env=env and agents=agents and skill=skill
      and agentType=agentType and options=options])
  case thrown then show ?thesis by simp
next
  case (unsafe a) then show ?thesis by simp
next
  case (branch a)
  show ?thesis unfolding branch
    by (rule symlinkBranch_createsAfter[OF surjective_pairing]) simp_all
qed

lemma emitsE: "emits Q m \<Longrightarrow> m log = (r, log') \<Longrightarrow> \<exists>evs. log' = log @ evs \<and> (\<forall>ev\<in>set evs. Q ev)"
  unfolding emits_def by blast

lemma emits_return [intro!, simp]: "emits Q (io_return x)"
  by (simp add: emits_def)

lemma emits_query [intro!]: "(\<And>x. Q (call, x)) \<Longrightarrow> emits Q (query ask call)"
  by (auto simp: emits_def query_apply split: sum.splits)

lemma emits_bind [intro!]:
  assumes "emits Q m" "\<And>x. emits Q (f x)"
  shows "emits Q (io_bind m f)"
  unfolding emits_def
proof (intro allI impI)
  fix log r log' assume "io_bind m f log = (r, log')"
  then show "\<exists>evs. log' = log @ evs \<and> (\<forall>ev\<in>set evs. Q ev)"
  proof (cases rule: io_bind_cases)
    case (throw e)
    then show ?thesis using emitsE[OF assms(1)] by blast
  next
    case (go x l)
    obtain e1 where 1: "l = log @ e1" "\<forall>ev\<in>set e1. Q ev" using emitsE[OF assms(1) go(1)] by blast
    obtain e2 where 2: "log' = l @ e2" "\<forall>ev\<in>set e2. Q ev" using emitsE[OF assms(2) go(2)] by blast
    show ?thesis using 1 2 by (intro exI[of _ "e1 @ e2"]) auto
  qed
qed

lemma emits_then [intro!]: "emits Q m \<Longrightarrow> emits Q k \<Longrightarrow> emits Q (io_then m k)"
  by (auto simp: io_then_def)

lemma emits_catch [intro!]:
  assumes "emits Q m" "\<And>e. emits Q (h e)"
  shows "emits Q (io_catch m h)"
  unfolding emits_def
proof (intro allI impI)
  fix log r log' assume "io_catch m h log = (r, log')"
  then show "\<exists>evs. log' = log @ evs \<and> (\<forall>ev\<in>set evs. Q ev)"
  proof (cases rule: io_catch_cases)
    case (caught e l)
    obtain e1 where 1: "l = log @ e1" "\<forall>ev\<in>set e1. Q ev" using emitsE[OF assms(1) caught(1)] by blast
    obtain e2 where 2: "log' = l @ e2" "\<forall>ev\<in>set e2. Q ev" using emitsE[OF assms(2) caught(2)] by blast
    show ?thesis using 1 2 by (intro exI[of _ "e1 @ e2"]) auto
  next
    case (ok x)
    then show ?thesis using emitsE[OF assms(1)] by blast
  qed
qed

lemma emits_throw [intro!, simp]: "emits Q (io_throw e)"
  by (simp add: emits_def)

lemma emits_forEach [intro!]: "(\<And>x. emits Q (body x)) \<Longrightarrow> emits Q (forEach xs body)"
  by (induction xs) auto

lemma emits_if [intro!]: "emits Q a \<Longrightarrow> emits Q b \<Longrightarrow> emits Q (if c then a else b)"
  by simp

lemma emitsD: "emits Q m \<Longrightarrow> m log = (r, log') \<Longrightarrow> \<forall>ev \<in> set (newEvents log log'). Q ev"
  using emitsE[of Q m log r log'] by auto

lemma nolink_ensureDirectory: "emits (\<lambda>ev. \<not> linkRejected ev) (ensureDirectory env p)"
  unfolding ensureDirectory_def prim_defs
  by (auto simp: linkRejected_def split: thrown.splits option.splits)

lemma emits_copyDirectory:
  assumes "\<And>p x. Q (Mkdir p, x)" "\<And>p x. Q (Readdir p, x)" "\<And>s d x. Q (Cp s d True True, x)"
  shows "emits Q (copyDirectory levels env src dest)"
proof (induction levels arbitrary: src dest)
  case 0 show ?case using assms by auto
next
  case (Suc levels)
  show ?case unfolding copyDirectory.simps prim_defs Let_def
    using assms by (auto intro!: Suc)
qed

lemma nolink_copyDirectory: "emits (\<lambda>ev. \<not> linkRejected ev) (copyDirectory levels env src dest)"
  by (rule emits_copyDirectory) (simp_all add: linkRejected_def)

lemma nolink_writeFile: "emits (\<lambda>ev. \<not> linkRejected ev) (writeFile env p c)"
  unfolding prim_defs by (auto simp: linkRejected_def)

lemma createSymlink_true:
  assumes "createSymlink h env target linkPath log = (Inr True, log')"
  shows "\<forall>ev \<in> set (newEvents log log'). \<not> linkRejected ev"
  using assms unfolding createSymlink_def prim_defs Let_def
  by (auto simp: io_apply linkRejected_def split: sum.splits option.splits if_splits prod.splits)

lemma traced_run: "traced m \<Longrightarrow> m log = (r, log') \<Longrightarrow> log' = log @ newEvents log log'"
  using traced_prefix[of m log r log'] by (auto simp: prefix_def)

lemma fallback_shape:
  fixes X Y :: "unit io"
  assumes run0: "symlinkBranch h env c a X Y log = (res, log')"
    and X: "emits (\<lambda>ev. \<not> linkRejected ev) X" "traced X"
    and Y: "traced Y"
    and rej: "\<exists>ev \<in> set (newEvents log log'). linkRejected ev"
  shows "(res = Inr (fallbackResult c a) \<and> (Mkdir a, None) \<in> set (newEvents log log')
          \<and> (\<exists>l. prefix log l \<and> Y l = (Inr (), log')))
       \<or> (\<exists>e. res = Inr (failure a SymlinkMode (errorMessage e)) \<and> endsWith e log')"
  using run0[unfolded symlinkBranch_def]
proof (cases rule: io_catch_cases)
  case (caught e l)
  have "traced (io_then (ensureDirectory env c)
         (io_then X
            (io_bind (createSymlink h env c a) (\<lambda>symlinkCreated.
               if \<not> symlinkCreated then
                 io_then (io_catch (rm env a True True) (\<lambda>_. io_return ()))
                   (io_then (mkdir env a) (io_then Y (io_return (fallbackResult c a))))
               else io_return (linkedResult c a)))))"
    using X(2) Y by (intro traced_intros) auto
  from traced_throws[OF this caught(1)] caught(2) show ?thesis by auto
next
  case (ok r)
  from ok(1) show ?thesis
  proof (cases rule: io_then_cases)
    case (throw e) then show ?thesis by simp
  next
    case ens: (go u1 l1)
    from ens(2) show ?thesis
    proof (cases rule: io_then_cases)
      case (throw e) then show ?thesis by simp
    next
      case x: (go u2 l2)
      from x(2) show ?thesis
      proof (cases rule: io_bind_cases)
        case (throw e) then show ?thesis by simp
      next
        case cs: (go created l3)
        have p1: "l1 = log @ newEvents log l1" using traced_run[OF traced_ensureDirectory ens(1)] .
        have p2: "l2 = l1 @ newEvents l1 l2" using traced_run[OF X(2) x(1)] .
        have p3: "l3 = l2 @ newEvents l2 l3" using traced_run[OF traced_createSymlink cs(1)] .
        have n1: "\<forall>ev \<in> set (newEvents log l1). \<not> linkRejected ev"
          using emitsD[OF nolink_ensureDirectory ens(1)] .
        have n2: "\<forall>ev \<in> set (newEvents l1 l2). \<not> linkRejected ev"
          using emitsD[OF X(1) x(1)] .
        show ?thesis
        proof (cases created)
          case True
          then have "log' = l3" using cs(2) by simp
          moreover have "\<forall>ev \<in> set (newEvents l2 l3). \<not> linkRejected ev"
            using createSymlink_true[of h env c a l2 l3] cs(1) True by simp
          ultimately have "\<forall>ev \<in> set (newEvents log log'). \<not> linkRejected ev"
            using n1 n2 p1 p2 p3 
            by (metis (no_types, lifting) UnE append.assoc newEvents_append set_append)
          with rej show ?thesis by blast
        next
          case False
          then have f: "io_then (io_catch (rm env a True True) (\<lambda>_. io_return ()))
                   (io_then (mkdir env a) (io_then Y (io_return (fallbackResult c a)))) l3 = (Inr r, log')"
            using cs(2) ok(2) by simp
          from f show ?thesis
          proof (cases rule: io_then_cases)
            case (throw e) then show ?thesis by simp
          next
            case rmv: (go u4 l4)
            have p4: "prefix l3 l4" using rmv(1)
              by (auto simp: prim_defs io_apply split: sum.splits option.splits)
            from rmv(2) show ?thesis
            proof (cases rule: io_then_cases)
              case (throw e) then show ?thesis by simp
            next
              case mk: (go u5 l5)
              have l5: "l5 = l4 @ [(Mkdir a, None)]" using mk(1)
                by (auto simp: prim_defs io_apply split: sum.splits option.splits)
              from mk(2) have y: "Y l5 = (Inr (), log')" "r = fallbackResult c a"
                by (auto simp: io_apply split: sum.splits prod.splits)
              have p6: "prefix l5 log'" using traced_prefix[OF Y y(1)] .
              have pl: "prefix log l3" using p1 p2 p3 by (metis prefixI prefix_order.trans)
              have pl5: "prefix log l5" using pl p4 l5 by (metis prefixI prefix_order.trans)
              have "(Mkdir a, None) \<in> set (newEvents log l5)"
                using pl p4 l5 by (auto simp: prefix_def newEvents_def)
              then have "(Mkdir a, None) \<in> set (newEvents log log')"
                using newEvents_trans[OF pl5 p6] by simp
              then show ?thesis using y ok(2) pl5 by auto
            qed
          qed
        qed
      qed
    qed
  qed
qed

lemma failure_simps [simp]:
  "success (failure a m msg) = False" "path (failure a m msg) = a" "mode (failure a m msg) = m"
  "error (failure a m msg) = Some msg" "symlinkFailed (failure a m msg) = None"
  "canonicalPath (failure a m msg) = None"
  by (simp_all add: failure_def)

lemma fallbackResult_simps [simp]:
  "success (fallbackResult c a) = True" "path (fallbackResult c a) = a" "mode (fallbackResult c a) = SymlinkMode"
  "error (fallbackResult c a) = None" "symlinkFailed (fallbackResult c a) = Some True"
  "canonicalPath (fallbackResult c a) = Some c"
  by (simp_all add: fallbackResult_def)

lemma installSkill_fallback:
  assumes m: "opt_mode options \<noteq> Some CopyMode"
    and rej: "\<exists>ev \<in> set (newEvents log (snd (installSkillForAgent h env agents skill agentType options log))). linkRejected ev"
  shows "\<exists>r. fst (installSkillForAgent h env agents skill agentType options log) = Inr r
          \<and> mode r = SymlinkMode
          \<and> (if success r then
                symlinkFailed r = Some True \<and> error r = None
                \<and> canonicalPath r = Some (canonicalDirOf h options (getSkillDisplayName skill))
                \<and> (Mkdir (path r), None)
                      \<in> set (newEvents log (snd (installSkillForAgent h env agents skill agentType options log)))
                \<and> (\<exists>l. prefix log l \<and>
                      copyDirectory (pathLevels h) env (skill_path skill) (path r) l
                        = (Inr (), snd (installSkillForAgent h env agents skill agentType options log)))
              else \<exists>e. error r = Some (errorMessage e)
                     \<and> endsWith e (snd (installSkillForAgent h env agents skill agentType options log)))"
  using m
proof (cases rule: installSkill_kinds[where h=h and env=env and agents=agents and skill=skill
      and agentType=agentType and options=options])
  case thrown then show ?thesis using rej by simp
next
  case (unsafe a) then show ?thesis using rej by simp
next
  case (branch a)
  obtain res log' where run: "installSkillForAgent h env agents skill agentType options log = (res, log')"
    by (cases "installSkillForAgent h env agents skill agentType options log")
  have rej': "\<exists>ev \<in> set (newEvents log log'). linkRejected ev" using rej run by simp
  from fallback_shape[OF run[unfolded branch] nolink_copyDirectory traced_copyDirectory traced_copyDirectory rej']
  show ?thesis
  proof (elim disjE conjE exE)
    fix l
    assume "res = Inr (fallbackResult (canonicalDirOf h options (getSkillDisplayName skill)) a)"
      "(Mkdir a, None) \<in> set (newEvents log log')" "prefix log l"
      "copyDirectory (pathLevels h) env (skill_path skill) a l = (Inr (), log')"
    then show ?thesis using run
      by (intro exI[of _ "fallbackResult (canonicalDirOf h options (getSkillDisplayName skill)) a"]) auto
  next
    fix e
    assume "res = Inr (failure a SymlinkMode (errorMessage e))" "endsWith e log'"
    then show ?thesis using run
      by (intro exI[of _ "failure a SymlinkMode (errorMessage e)"]) auto
  qed
qed

lemma installRemote_fallback:
  assumes m: "opt_mode options \<noteq> Some CopyMode"
    and rej: "\<exists>ev \<in> set (newEvents log (snd (installRemoteSkillForAgent h env agents skill agentType options log))). linkRejected ev"
  shows "\<exists>r. fst (installRemoteSkillForAgent h env agents skill agentType options log) = Inr r
          \<and> mode r = SymlinkMode
          \<and> (if success r then
                symlinkFailed r = Some True \<and> error r = None
                \<and> canonicalPath r = Some (canonicalDirOf h options (remote_installName skill))
                \<and> (Mkdir (path r), None)
                      \<in> set (newEvents log (snd (installRemoteSkillForAgent h env agents skill agentType options log)))
                \<and> (\<exists>l. prefix log l \<and>
                      writeFile env (join [path r, js ''SKILL.md'']) (remote_content skill) l
                        = (Inr (), snd (installRemoteSkillForAgent h env agents skill agentType options log)))
              else \<exists>e. error r = Some (errorMessage e)
                     \<and> endsWith e (snd (installRemoteSkillForAgent h env agents skill agentType options log)))"
  using m
proof (cases rule: installRemote_kinds[where h=h and env=env and agents=agents and skill=skill
      and agentType=agentType and options=options])
  case thrown then show ?thesis using rej by simp
next
  case (unsafe a) then show ?thesis using rej by simp
next
  case (branch a)
  obtain res log' where run: "installRemoteSkillForAgent h env agents skill agentType options log = (res, log')"
    by (cases "installRemoteSkillForAgent h env agents skill agentType options log")
  have rej': "\<exists>ev \<in> set (newEvents log log'). linkRejected ev" using rej run by simp
  from fallback_shape[OF run[unfolded branch] nolink_writeFile traced_prims(6) traced_prims(6) rej']
  show ?thesis
  proof (elim disjE conjE exE)
    fix l
    assume "res = Inr (fallbackResult (canonicalDirOf h options (remote_installName skill)) a)"
      "(Mkdir a, None) \<in> set (newEvents log log')" "prefix log l"
      "writeFile env (join [a, js ''SKILL.md'']) (remote_content skill) l = (Inr (), log')"
    then show ?thesis using run
      by (intro exI[of _ "fallbackResult (canonicalDirOf h options (remote_installName skill)) a"]) auto
  next
    fix e
    assume "res = Inr (failure a SymlinkMode (errorMessage e))" "endsWith e log'"
    then show ?thesis using run
      by (intro exI[of _ "failure a SymlinkMode (errorMessage e)"]) auto
  qed
qed

lemma yields_return [intro!]: "P x \<Longrightarrow> yields P (io_return x)"
  by (simp add: yields_def)

lemma yields_bind [intro!]: "(\<And>x. yields P (f x)) \<Longrightarrow> yields P (io_bind m f)"
  by (auto simp: yields_def io_bind_apply split: prod.splits sum.splits)

lemma yields_then [intro!]: "yields P k \<Longrightarrow> yields P (io_then m k)"
  by (auto simp: io_then_def)

lemma yields_if [intro!]: "yields P a \<Longrightarrow> yields P b \<Longrightarrow> yields P (if c then a else b)"
  by simp

lemma catch_failure:
  assumes "io_catch m (\<lambda>e. io_return (G e)) log = (res, log')" "traced m" "yields P m"
  shows "(\<exists>x. res = Inr x \<and> P x) \<or> (\<exists>e. res = Inr (G e) \<and> log' \<noteq> log \<and> endsWith e log')"
  using assms(1)
proof (cases rule: io_catch_cases)
  case (caught e l)
  then show ?thesis using traced_throws[OF assms(2) caught(1)] by auto
next
  case (ok x)
  then show ?thesis using assms(3) by (auto simp: yields_def)
qed

lemma guarded_if:
  "(if \<not> s1 then io_return F1 else if \<not> s2 then io_return F2 else io_catch M H) log = (res, log')
   \<Longrightarrow> (res = Inr F1 \<and> log' = log) \<or> (res = Inr F2 \<and> log' = log) \<or> io_catch M H log = (res, log')"
  by (auto split: if_splits)

lemma outcome_final:
  assumes "(\<exists>a m. res = Inr (failure a m traversalMessage) \<and> log' = log)
      \<or> (\<exists>x. res = Inr x \<and> success x \<and> error x = None)
      \<or> (\<exists>e a m. res = Inr (failure a m (errorMessage e)) \<and> log' \<noteq> log \<and> endsWith e log')"
  shows "\<exists>r. res = Inr r
          \<and> (if success r then error r = None
              else (error r = Some traversalMessage \<and> log' = log)
                 \<or> (\<exists>e. error r = Some (errorMessage e) \<and> log' \<noteq> log \<and> endsWith e log'))"
  using assms by (elim disjE exE conjE) auto

lemma installSkill_outcome:
  assumes a: "map_of agents agentType = Some agent"
    and b: "agentBaseOf agent (case opt_global options of None \<Rightarrow> False | Some g \<Rightarrow> g)
              (orCwd h (opt_cwd options)) = Some agentBase"
  shows "\<exists>r. fst (installSkillForAgent h env agents skill agentType options log) = Inr r
          \<and> (if success r then error r = None
              else (error r = Some traversalMessage
                     \<and> snd (installSkillForAgent h env agents skill agentType options log) = log)
                 \<or> (\<exists>e. error r = Some (errorMessage e)
                     \<and> snd (installSkillForAgent h env agents skill agentType options log) \<noteq> log
                     \<and> endsWith e (snd (installSkillForAgent h env agents skill agentType options log))))"
proof -
  obtain res log' where run: "installSkillForAgent h env agents skill agentType options log = (res, log')"
    by (cases "installSkillForAgent h env agents skill agentType options log")
  let ?P = "\<lambda>r. success r \<and> error r = None"
  have "(\<exists>a m. res = Inr (failure a m traversalMessage) \<and> log' = log)
      \<or> (\<exists>x. res = Inr x \<and> ?P x)
      \<or> (\<exists>e a m. res = Inr (failure a m (errorMessage e)) \<and> log' \<noteq> log \<and> endsWith e log')"
    using guarded_if[OF run[unfolded installSkillForAgent_def Let_def a b option.case]]
    apply (elim disjE)
      apply blast
     apply blast
    apply (drule catch_failure[where P = "?P"])
      apply (intro traced_intros)
     apply (intro yields_if yields_then yields_bind yields_return; simp)
    apply blast
    done
  from outcome_final[OF this] show ?thesis unfolding run fst_conv snd_conv .
qed


lemma installable_outcome:
  assumes "installable h agents options agentType"
  shows "\<exists>r. fst (installSkillForAgent h env agents skill agentType options log) = Inr r
          \<and> (if success r then error r = None
              else (error r = Some traversalMessage
                     \<and> snd (installSkillForAgent h env agents skill agentType options log) = log)
                 \<or> (\<exists>e. error r = Some (errorMessage e)
                     \<and> snd (installSkillForAgent h env agents skill agentType options log) \<noteq> log
                     \<and> endsWith e (snd (installSkillForAgent h env agents skill agentType options log))))"
proof -
  from assms obtain agent agentBase where "map_of agents agentType = Some agent"
    "agentBaseOf agent (case opt_global options of None \<Rightarrow> False | Some g \<Rightarrow> g)
              (orCwd h (opt_cwd options)) = Some agentBase"
    unfolding installable_def by (cases "map_of agents agentType") auto
  from installSkill_outcome[OF this] show ?thesis .
qed

lemma agentsLoop_reports:
  assumes "\<forall>a \<in> set targetAgents. installable h agents (loopOptions g mo) a"
  shows "\<exists>reports. fst (installAgentsLoop h env agents g mo skill targetAgents results log)
                     = Inr (results @ reports)
           \<and> reportedPairs reports
               = map (\<lambda>a. (getSkillDisplayName skill, displayNameOf agents a)) targetAgents"
  using assms
proof (induction targetAgents arbitrary: results log)
  case Nil
  then show ?case by (simp add: reportedPairs_def)
next
  case (Cons a rest)
  have inst: "installable h agents (loopOptions g mo) a" using Cons.prems by simp
  then obtain cfg where cfg: "map_of agents a = Some cfg"
    by (auto simp: installable_def split: option.splits)
  obtain r l where run: "installSkillForAgent h env agents skill a (loopOptions g mo) log = (Inr r, l)"
    using installable_outcome[OF inst, of env skill log]
    by (cases "installSkillForAgent h env agents skill a (loopOptions g mo) log") auto
  let ?rep = "\<lparr>report_skill = getSkillDisplayName skill, report_agent = displayName cfg,
               report_result = r\<rparr>"
  from Cons.IH[of "results @ [?rep]" l] Cons.prems
  obtain reports where rec: "fst (installAgentsLoop h env agents g mo skill rest (results @ [?rep]) l)
                     = Inr ((results @ [?rep]) @ reports)"
           "reportedPairs reports
               = map (\<lambda>a. (getSkillDisplayName skill, displayNameOf agents a)) rest"
    by auto
  have "fst (installAgentsLoop h env agents g mo skill (a # rest) results log)
          = Inr (results @ (?rep # reports))"
    using run rec(1) cfg by (simp add: io_bind_apply loopOptions_def)
  moreover have "reportedPairs (?rep # reports)
      = map (\<lambda>a. (getSkillDisplayName skill, displayNameOf agents a)) (a # rest)"
    using rec(2) cfg by (simp add: reportedPairs_def displayNameOf_def)
  ultimately show ?case by blast
qed

lemma skillsLoop_reports:
  assumes "\<forall>a \<in> set targetAgents. installable h agents (loopOptions g mo) a"
  shows "\<exists>reports. fst (installSkillsLoop h env agents g mo skills targetAgents results log)
                     = Inr (results @ reports)
           \<and> reportedPairs reports
               = concat (map (\<lambda>s. map (\<lambda>a. (getSkillDisplayName s, displayNameOf agents a)) targetAgents)
                           skills)"
proof (induction skills arbitrary: results log)
  case Nil
  then show ?case by (simp add: reportedPairs_def)
next
  case (Cons s rest)
  obtain reps where a: "fst (installAgentsLoop h env agents g mo s targetAgents results log)
                     = Inr (results @ reps)"
           "reportedPairs reps = map (\<lambda>a. (getSkillDisplayName s, displayNameOf agents a)) targetAgents"
    using agentsLoop_reports[OF assms] by blast
  obtain l where run: "installAgentsLoop h env agents g mo s targetAgents results log = (Inr (results @ reps), l)"
    using a(1) by (cases "installAgentsLoop h env agents g mo s targetAgents results log") auto
  from Cons.IH[of "results @ reps" l]
  obtain reports where rec: "fst (installSkillsLoop h env agents g mo rest targetAgents (results @ reps) l)
                     = Inr ((results @ reps) @ reports)"
      "reportedPairs reports
               = concat (map (\<lambda>s. map (\<lambda>a. (getSkillDisplayName s, displayNameOf agents a)) targetAgents)
                           rest)"
    by auto
  have "fst (installSkillsLoop h env agents g mo (s # rest) targetAgents results log)
          = Inr (results @ (reps @ reports))"
    using run rec(1) by (simp add: io_bind_apply)
  moreover have "reportedPairs (reps @ reports)
      = concat (map (\<lambda>s. map (\<lambda>a. (getSkillDisplayName s, displayNameOf agents a)) targetAgents)
                           (s # rest))"
    using a(2) rec(2) by (simp add: reportedPairs_def)
  ultimately show ?case by blast
qed


subsection \<open>Writing the files of a fetched skill\<close>

lemma forEach_emits_elem:
  "(\<And>x. x \<in> set xs \<Longrightarrow> emits Q (body x)) \<Longrightarrow> emits Q (forEach xs body)"
  by (induction xs) auto

lemma emits_if_cond:
  "(c \<Longrightarrow> emits Q a) \<Longrightarrow> (\<not> c \<Longrightarrow> emits Q b) \<Longrightarrow> emits Q (if c then a else b)"
  by simp

lemma writeSkillFiles_emits:
  "emits (\<lambda>ev. case fst ev of
            WriteFile p c \<Rightarrow> isPathSafe (process_cwd h) targetDir p
                              \<and> (\<exists>f. (f, c) \<in> set files \<and> p = join [targetDir, f])
          | Mkdir _ \<Rightarrow> True
          | _ \<Rightarrow> False)
     (writeSkillFiles h env files targetDir)"
  unfolding writeSkillFiles_def prim_defs Let_def
proof (intro emits_then emits_query forEach_emits_elem, goal_cases)
  case (1 x) then show ?case by simp
next
  case (2 x)
  obtain f c where x: "x = (f, c)" by (cases x)
  have safe: "isPathSafe (process_cwd h) targetDir (join [targetDir, f]) \<Longrightarrow>
     emits (\<lambda>ev. case fst ev of
            WriteFile p c \<Rightarrow> isPathSafe (process_cwd h) targetDir p
                              \<and> (\<exists>f. (f, c) \<in> set files \<and> p = join [targetDir, f])
          | Mkdir _ \<Rightarrow> True
          | _ \<Rightarrow> False)
       (io_then
         (if dirname (join [targetDir, f]) \<noteq> targetDir
          then query (\<lambda>log. case fs_unit env log (Mkdir (dirname (join [targetDir, f]))) of
                               None \<Rightarrow> Inr () | Some e \<Rightarrow> Inl e)
                 (Mkdir (dirname (join [targetDir, f])))
          else io_return ())
         (query (\<lambda>log. case fs_unit env log (WriteFile (join [targetDir, f]) c) of
                          None \<Rightarrow> Inr () | Some e \<Rightarrow> Inl e)
            (WriteFile (join [targetDir, f]) c)))"
    using 2 x by (intro emits_then emits_if emits_query emits_return) auto
  show ?case unfolding x prod.case
    by (rule emits_if_cond) (simp_all add: safe)
qed

lemma forEach_ok:
  assumes "forEach xs body log = (Inr (), log')" "\<And>x. traced (body x)" "x \<in> set xs"
  shows "\<exists>l l'. prefix log l \<and> prefix l' log' \<and> body x l = (Inr (), l')"
  using assms(1,3)
proof (induction xs arbitrary: log)
  case Nil then show ?case by simp
next
  case (Cons y ys)
  from Cons.prems(1) obtain l1 where 1: "body y log = (Inr (), l1)" and 2: "forEach ys body l1 = (Inr (), log')"
    by (auto simp: io_then_apply split: prod.splits sum.splits)
  have p1: "prefix log l1" using traced_prefix[OF assms(2) 1] .
  have p2: "prefix l1 log'" using traced_prefix[OF traced_forEach[OF assms(2)] 2] .
  show ?case
  proof (cases "x = y")
    case True
    then show ?thesis using 1 p2 by blast
  next
    case False
    then have "x \<in> set ys" using Cons.prems(2) by simp
    from Cons.IH[OF 2 this] obtain l l' where "prefix l1 l" "prefix l' log'" "body x l = (Inr (), l')" by blast
    then show ?thesis using p1 by (meson prefix_order.trans)
  qed
qed

lemma query_ok_event:
  "query ask call l = (Inr x, l') \<Longrightarrow> l' = l @ [(call, None)]"
  by (auto simp: query_apply split: sum.splits)

lemma writeSkillFiles_writes:
  assumes run: "writeSkillFiles h env files targetDir log = (Inr (), log')"
    and f: "(filePath, content) \<in> set files"
    and safe: "isPathSafe (process_cwd h) targetDir (join [targetDir, filePath])"
  shows "(WriteFile (join [targetDir, filePath]) content, None) \<in> set (newEvents log log')"
proof -
  let ?body = "\<lambda>(filePath, content).
          let fullPath = join [targetDir, filePath]
          in if \<not> isPathSafe (process_cwd h) targetDir fullPath then io_return ()
             else
               let parentDir = dirname fullPath
               in io_then (if parentDir \<noteq> targetDir then mkdir env parentDir else io_return ())
                    (writeFile env fullPath content)"
  have tr: "\<And>x. traced (?body x)" by (auto simp: Let_def split: prod.splits)
  from run obtain l0 where m: "mkdir env targetDir log = (Inr (), l0)"
    and fe: "forEach files ?body l0 = (Inr (), log')"
    unfolding writeSkillFiles_def by (auto simp: io_then_apply split: prod.splits sum.splits)
  have p0: "prefix log l0" by (rule traced_prefix[OF traced_prims(2) m])
  from forEach_ok[OF fe tr f] obtain l l' where
    pl: "prefix l0 l" "prefix l' log'" and b: "?body (filePath, content) l = (Inr (), l')" by blast
  from b safe have b': "io_then
        (if dirname (join [targetDir, filePath]) \<noteq> targetDir
         then mkdir env (dirname (join [targetDir, filePath])) else io_return ())
        (writeFile env (join [targetDir, filePath]) content) l = (Inr (), l')"
    by (simp add: Let_def)
  from b' obtain u l1 where
    pre: "(if dirname (join [targetDir, filePath]) \<noteq> targetDir
         then mkdir env (dirname (join [targetDir, filePath])) else io_return ()) l = (Inr u, l1)"
    and w: "writeFile env (join [targetDir, filePath]) content l1 = (Inr (), l')"
    by (cases rule: io_then_cases) auto
  have tp: "traced (if dirname (join [targetDir, filePath]) \<noteq> targetDir
         then mkdir env (dirname (join [targetDir, filePath])) else io_return ())"
    by auto
  have p1: "prefix l l1"
    using tp pre unfolding traced_def by blast
  have "l' = l1 @ [(WriteFile (join [targetDir, filePath]) content, None)]"
    using w unfolding prim_defs by (rule query_ok_event)
  moreover have "prefix log l1" using p0 pl(1) p1 by (meson prefix_order.trans)
  ultimately show ?thesis using pl(2) by (auto simp: prefix_def newEvents_def)
qed

lemma traced_writeSkillFiles: "traced (writeSkillFiles h env files targetDir)"
  unfolding writeSkillFiles_def
  by (auto simp: Let_def split: prod.splits)

subsection \<open>Copying a directory\<close>

lemma isExcluded_iff:
  "isExcluded name isDirectory \<longleftrightarrow>
     name = js ''README.md'' \<or> name = js ''metadata.json'' \<or> startsWith name (js ''_'')
     \<or> (isDirectory \<and> name = js ''.git'')"
  by (auto simp: isExcluded_def EXCLUDE_FILES_def EXCLUDE_DIRS_def)

lemma copyDirectory_copyCall:
  "emits copyCall (copyDirectory levels env src dest)"
  by (rule emits_copyDirectory) (simp_all add: copyCall_def)

lemma forEach_cong:
  "(\<And>x. x \<in> set xs \<Longrightarrow> f x = g x) \<Longrightarrow> forEach xs f = forEach xs g"
  by (induction xs) auto

lemma withoutExcluded_prims:
  "mkdir (withoutExcluded env) p = mkdir env p"
  "cp (withoutExcluded env) s d a b = cp env s d a b"
  by (simp_all add: prim_defs withoutExcluded_def)

lemma readdir_withoutExcluded:
  "readdir (withoutExcluded env) p log =
     (case readdir env p log of
        (Inl e, l) \<Rightarrow> (Inl e, l)
      | (Inr entries, l) \<Rightarrow>
          (Inr (filter (\<lambda>entry. \<not> isExcluded (dirent_name entry) (dirent_isDirectory entry)) entries), l))"
  by (auto simp: prim_defs withoutExcluded_def query_apply split: sum.splits)

lemma copyDirectory_withoutExcluded:
  "copyDirectory levels (withoutExcluded env) src dest = copyDirectory levels env src dest"
proof (induction levels arbitrary: src dest)
  case 0
  show ?case by simp
next
  case (Suc levels)
  show ?case
  proof (rule ext)
    fix log
    show "copyDirectory (Suc levels) (withoutExcluded env) src dest log
        = copyDirectory (Suc levels) env src dest log"
      by (auto simp: io_then_apply io_bind_apply withoutExcluded_prims readdir_withoutExcluded Suc Let_def
               split: prod.splits sum.splits cong: if_cong)
  qed
qed

lemma copyDirectory_first:
  assumes "copyDirectory levels env src dest log = (Inr (), log')"
  shows "(Mkdir dest, None) \<in> set (newEvents log log')"
proof (cases levels)
  case 0
  then show ?thesis using assms by (simp add: query_apply)
next
  case (Suc n)
  from assms[unfolded Suc copyDirectory.simps] obtain u l0 where
    m: "mkdir env dest log = (Inr u, l0)" and
    rest: "io_bind (readdir env src) (\<lambda>entries.
          forEach
            (filter (\<lambda>entry. \<not> isExcluded (dirent_name entry) (dirent_isDirectory entry)) entries)
            (\<lambda>entry.
               let srcPath = join [src, dirent_name entry];
                   destPath = join [dest, dirent_name entry]
               in if dirent_isDirectory entry then copyDirectory n env srcPath destPath
                  else cp env srcPath destPath True True)) l0 = (Inr (), log')"
    by (cases rule: io_then_cases) auto
  have l0: "l0 = log @ [(Mkdir dest, None)]" using m unfolding prim_defs by (rule query_ok_event)
  have tr: "traced (io_bind (readdir env src) (\<lambda>entries.
          forEach
            (filter (\<lambda>entry. \<not> isExcluded (dirent_name entry) (dirent_isDirectory entry)) entries)
            (\<lambda>entry.
               let srcPath = join [src, dirent_name entry];
                   destPath = join [dest, dirent_name entry]
               in if dirent_isDirectory entry then copyDirectory n env srcPath destPath
                  else cp env srcPath destPath True True)))"
    by (intro traced_bind traced_forEach) (auto simp: Let_def)
  have "prefix l0 log'" using tr rest unfolding traced_def by blast
  then show ?thesis using l0 by (auto simp: prefix_def newEvents_def)
qed

lemma copyDirectory_copies:
  assumes run: "copyDirectory levels env src dest log = (Inr (), log')"
    and rd: "fs_readdir env (log @ [(Mkdir dest, None)]) src = Inr entries"
    and e: "entry \<in> set entries"
    and keep: "\<not> isExcluded (dirent_name entry) (dirent_isDirectory entry)"
  shows "(if dirent_isDirectory entry then Mkdir (join [dest, dirent_name entry])
          else Cp (join [src, dirent_name entry]) (join [dest, dirent_name entry]) True True, None)
         \<in> set (newEvents log log')"
proof (cases levels)
  case 0
  then show ?thesis using run by (simp add: query_apply)
next
  case (Suc n)
  let ?body = "\<lambda>entry.
               let srcPath = join [src, dirent_name entry];
                   destPath = join [dest, dirent_name entry]
               in if dirent_isDirectory entry then copyDirectory n env srcPath destPath
                  else cp env srcPath destPath True True"
  let ?keep = "filter (\<lambda>entry. \<not> isExcluded (dirent_name entry) (dirent_isDirectory entry))"
  from run[unfolded Suc copyDirectory.simps] obtain u l0 where
    m: "mkdir env dest log = (Inr u, l0)" and
    rest: "io_bind (readdir env src) (\<lambda>entries. forEach (?keep entries) ?body) l0 = (Inr (), log')"
    by (cases rule: io_then_cases) auto
  have l0: "l0 = log @ [(Mkdir dest, None)]" using m unfolding prim_defs by (rule query_ok_event)
  from rest obtain es l1 where
    r: "readdir env src l0 = (Inr es, l1)" and fe: "forEach (?keep es) ?body l1 = (Inr (), log')"
    by (cases rule: io_bind_cases) auto
  have es: "es = entries" and l1: "l1 = l0 @ [(Readdir src, None)]"
    using r rd l0 by (auto simp: prim_defs query_apply split: sum.splits)
  have tr: "\<And>x. traced (?body x)" by (auto simp: Let_def)
  have mem: "entry \<in> set (?keep es)" using e keep es by simp
  from forEach_ok[OF fe tr mem] obtain l l' where
    pl: "prefix l1 l" "prefix l' log'" and b: "?body entry l = (Inr (), l')" by blast
  have pre: "prefix log l" using l0 l1 pl(1) by (auto simp: prefix_def)
  have ev: "(if dirent_isDirectory entry then Mkdir (join [dest, dirent_name entry])
          else Cp (join [src, dirent_name entry]) (join [dest, dirent_name entry]) True True, None)
         \<in> set (newEvents l l')"
  proof (cases "dirent_isDirectory entry")
    case True
    then have "copyDirectory n env (join [src, dirent_name entry]) (join [dest, dirent_name entry]) l
                 = (Inr (), l')" using b by (simp add: Let_def)
    from copyDirectory_first[OF this] True show ?thesis by simp
  next
    case False
    then have "cp env (join [src, dirent_name entry]) (join [dest, dirent_name entry]) True True l
                 = (Inr (), l')" using b by (simp add: Let_def)
    then have "l' = l @ [(Cp (join [src, dirent_name entry]) (join [dest, dirent_name entry]) True True, None)]"
      unfolding prim_defs by (rule query_ok_event)
    then show ?thesis using False by simp
  qed
  have pll: "prefix l l'" using tr[of entry] b unfolding traced_def by blast
  have "set (newEvents l l') \<subseteq> set (newEvents log log')"
    using pre pll pl(2) by (auto simp: prefix_def newEvents_def)
  then show ?thesis using ev by blast
qed

lemma copyDirectory_descends:
  assumes run: "copyDirectory levels env src dest log = (Inr (), log')"
    and rd: "fs_readdir env (log @ [(Mkdir dest, None)]) src = Inr entries"
    and e: "entry \<in> set entries"
    and keep: "\<not> isExcluded (dirent_name entry) (dirent_isDirectory entry)"
    and dir: "dirent_isDirectory entry"
  shows "\<exists>l l'. prefix log l \<and> prefix l' log'
           \<and> copyDirectory (levels - 1) env (join [src, dirent_name entry])
                 (join [dest, dirent_name entry]) l = (Inr (), l')"
proof (cases levels)
  case 0
  then show ?thesis using run by (simp add: query_apply)
next
  case (Suc n)
  let ?body = "\<lambda>entry.
               let srcPath = join [src, dirent_name entry];
                   destPath = join [dest, dirent_name entry]
               in if dirent_isDirectory entry then copyDirectory n env srcPath destPath
                  else cp env srcPath destPath True True"
  let ?keep = "filter (\<lambda>entry. \<not> isExcluded (dirent_name entry) (dirent_isDirectory entry))"
  from run[unfolded Suc copyDirectory.simps] obtain u l0 where
    m: "mkdir env dest log = (Inr u, l0)" and
    rest: "io_bind (readdir env src) (\<lambda>entries. forEach (?keep entries) ?body) l0 = (Inr (), log')"
    by (cases rule: io_then_cases) auto
  have l0: "l0 = log @ [(Mkdir dest, None)]" using m unfolding prim_defs by (rule query_ok_event)
  from rest obtain es l1 where
    r: "readdir env src l0 = (Inr es, l1)" and fe: "forEach (?keep es) ?body l1 = (Inr (), log')"
    by (cases rule: io_bind_cases) auto
  have es: "es = entries" and l1: "l1 = l0 @ [(Readdir src, None)]"
    using r rd l0 by (auto simp: prim_defs query_apply split: sum.splits)
  have tr: "\<And>x. traced (?body x)" by (auto simp: Let_def)
  have mem: "entry \<in> set (?keep es)" using e keep es by simp
  from forEach_ok[OF fe tr mem] obtain l l' where
    pl: "prefix l1 l" "prefix l' log'" and b: "?body entry l = (Inr (), l')" by blast
  have pre: "prefix log l" using l0 l1 pl(1) by (auto simp: prefix_def)
  have "copyDirectory n env (join [src, dirent_name entry]) (join [dest, dirent_name entry]) l
          = (Inr (), l')" using b dir by (simp add: Let_def)
  then show ?thesis using pre pl(2) Suc by auto
qed

subsection \<open>Discovery\<close>

lemma total_return [intro!, simp]: "total (io_return x)"
  by (simp add: total_def)

lemma total_catch [intro!]: "(\<And>e. total (h e)) \<Longrightarrow> total (io_catch m h)"
  unfolding total_def
proof
  fix log assume h: "\<And>e. \<forall>log. \<exists>x l. h e log = (Inr x, l)"
  show "\<exists>x l. io_catch m h log = (Inr x, l)"
  proof (cases "m log")
    case (Pair r l)
    then show ?thesis using h by (cases r) (auto simp: io_catch_apply)
  qed
qed

lemma total_bind [intro!]: "total m \<Longrightarrow> (\<And>x. total (f x)) \<Longrightarrow> total (io_bind m f)"
  unfolding total_def
proof
  fix log assume m: "\<forall>log. \<exists>x l. m log = (Inr x, l)" and f: "\<And>x. \<forall>log. \<exists>y l. f x log = (Inr y, l)"
  from m obtain x l where "m log = (Inr x, l)" by blast
  then show "\<exists>y l. io_bind m f log = (Inr y, l)" using f[of x] by (simp add: io_bind_apply)
qed

lemma total_if [intro!]: "total a \<Longrightarrow> total b \<Longrightarrow> total (if c then a else b)"
  by simp

lemma total_foldTry [intro!, simp]: "total (foldTry body xs s)"
  unfolding total_def
proof (induction xs arbitrary: s)
  case Nil show ?case by simp
next
  case (Cons x xs)
  show ?case
  proof
    fix log
    show "\<exists>y l. foldTry body (x # xs) s log = (Inr y, l)"
    proof (cases "body s x log")
      case (Pair r l)
      then show ?thesis using Cons[of _ ] by (cases r) (auto split: prod.splits)
    qed
  qed
qed

lemma total_foldM [intro!]: "(\<And>s x. total (body s x)) \<Longrightarrow> total (foldM body xs s)"
  by (induction xs arbitrary: s) auto

lemma totalD: "total m \<Longrightarrow> \<exists>x l. m log = (Inr x, l)"
  by (simp add: total_def)

lemma yields_catch [intro!]: "yields P m \<Longrightarrow> (\<And>e. yields P (h e)) \<Longrightarrow> yields P (io_catch m h)"
  by (auto simp: yields_def io_catch_apply split: prod.splits sum.splits)

lemma yields_foldTry:
  assumes "\<And>s x. P s \<Longrightarrow> yields P (body s x)" "P s"
  shows "yields P (foldTry body xs s)"
  using assms(2)
proof (induction xs arbitrary: s)
  case Nil then show ?case by (simp add: yields_def)
next
  case (Cons x xs)
  show ?case unfolding yields_def
  proof (intro allI impI)
    fix log y l assume run: "foldTry body (x # xs) s log = (Inr y, l)"
    show "P y"
    proof (cases "body s x log")
      case (Pair r l1)
      show ?thesis
      proof (cases r)
        case (Inl e)
        then show ?thesis using run Pair Cons.prems by simp
      next
        case (Inr s')
        then have "P s'" using assms(1)[OF Cons.prems, of x] Pair by (auto simp: yields_def)
        from Cons.IH[OF this] run Pair Inr show ?thesis by (auto simp: yields_def)
      qed
    qed
  qed
qed

lemma yields_foldM:
  assumes "\<And>s x. P s \<Longrightarrow> yields P (body s x)" "P s"
  shows "yields P (foldM body xs s)"
  using assms(2)
proof (induction xs arbitrary: s)
  case Nil then show ?case by (simp add: yields_def)
next
  case (Cons x xs)
  show ?case unfolding yields_def
  proof (intro allI impI)
    fix log y l assume run: "foldM body (x # xs) s log = (Inr y, l)"
    then obtain s' l1 where 1: "body s x log = (Inr s', l1)" and 2: "foldM body xs s' l1 = (Inr y, l)"
      by (auto simp: io_bind_apply split: prod.splits sum.splits)
    have "P s'" using assms(1)[OF Cons.prems, of x] 1 by (auto simp: yields_def)
    from Cons.IH[OF this] 2 show "P y" by (auto simp: yields_def)
  qed
qed

lemma yields_bind_dep:
  assumes "yields Q m" "\<And>x. Q x \<Longrightarrow> yields P (f x)"
  shows "yields P (io_bind m f)"
  unfolding yields_def
proof (intro allI impI)
  fix log y l assume "io_bind m f log = (Inr y, l)"
  then obtain x l1 where 1: "m log = (Inr x, l1)" and 2: "f x l1 = (Inr y, l)"
    by (auto simp: io_bind_apply split: prod.splits sum.splits)
  have "Q x" using assms(1) 1 by (auto simp: yields_def)
  from assms(2)[OF this] 2 show "P y" by (auto simp: yields_def)
qed

lemma seenInv_pushIfNew: "seenInv st \<Longrightarrow> seenInv (pushIfNew st parsed)"
  by (cases parsed) (auto simp: seenInv_def pushIfNew_def)

lemma total_hasSkillMd [intro!, simp]: "total (hasSkillMd env dir)"
  unfolding hasSkillMd_def by auto

lemma total_parseSkillMd [intro!, simp]: "total (parseSkillMd h env p inc)"
  unfolding parseSkillMd_def by auto

lemma total_discoverDir [intro!, simp]: "total (discoverDir h env inc st dir)"
  unfolding discoverDir_def by auto

lemma total_discoverFallback [intro!, simp]: "total (discoverFallback h env inc st dir)"
  unfolding discoverFallback_def by auto

lemma total_findSkillDirs [intro!, simp]: "total (findSkillDirs env dir depth maxDepth)"
  by (subst findSkillDirs.simps) auto

lemma yields_discoverEntry:
  "seenInv st \<Longrightarrow> yields seenInv (discoverEntry h env inc dir st entry)"
  unfolding discoverEntry_def Let_def
  by (intro yields_if yields_bind yields_return seenInv_pushIfNew)

lemma yields_discoverDir:
  "seenInv st \<Longrightarrow> yields seenInv (discoverDir h env inc st dir)"
  unfolding discoverDir_def
  by (intro yields_catch yields_bind yields_return yields_foldTry yields_discoverEntry)

lemma yields_discoverFallback:
  "seenInv st \<Longrightarrow> yields seenInv (discoverFallback h env inc st dir)"
  unfolding discoverFallback_def
  by (intro yields_bind yields_return seenInv_pushIfNew)

lemma discoverSkills_distinct:
  "\<exists>skills. fst (discoverSkills h env basePath subpath inc log) = Inr skills
      \<and> distinct (map skill_name skills)"
proof -
  let ?P = "\<lambda>skills. distinct (map skill_name skills)"
  have t: "total (discoverSkills h env basePath subpath inc)"
    unfolding discoverSkills_def Let_def
    by (intro total_bind total_if total_hasSkillMd total_parseSkillMd total_return total_foldM
        total_discoverDir total_discoverFallback total_findSkillDirs)
       (auto split: option.splits)
  have init: "seenInv ([], {})" by (simp add: seenInv_def)
  have fin: "\<And>st. seenInv st \<Longrightarrow> ?P (fst st)" by (simp add: seenInv_def)
  have y: "yields ?P (discoverSkills h env basePath subpath inc)"
    unfolding discoverSkills_def Let_def
  proof (rule yields_bind, rule yields_bind, goal_cases)
    case (1 direct skill)
    show ?case
    proof (cases skill)
      case (Some sk)
      then show ?thesis by (auto intro!: yields_return)
    next
      case None
      show ?thesis unfolding None option.case
      proof (rule yields_bind_dep[where Q = seenInv])
        show "yields seenInv (foldM (discoverDir h env inc)
                 (prioritySearchDirs (case subpath of None \<Rightarrow> basePath
                     | Some sub \<Rightarrow> if sub = [] then basePath else join [basePath, sub])) ([], {}))"
          by (rule yields_foldM[OF yields_discoverDir init])
      next
        fix st assume st: "seenInv st"
        show "yields ?P (if length (fst st) = 0
                then io_bind (findSkillDirs env (case subpath of None \<Rightarrow> basePath
                     | Some sub \<Rightarrow> if sub = [] then basePath else join [basePath, sub]) 0 5)
                   (\<lambda>allSkillDirs. io_bind (foldM (discoverFallback h env inc) allSkillDirs st)
                       (\<lambda>st'. io_return (fst st')))
                else io_return (fst st))"
        proof (rule yields_if)
          have inner: "\<And>allSkillDirs. yields ?P (io_bind (foldM (discoverFallback h env inc) allSkillDirs st)
                       (\<lambda>st'. io_return (fst st')))"
            by (rule yields_bind_dep[where Q = seenInv, OF yields_foldM[OF yields_discoverFallback st]])
               (auto intro!: yields_return fin)
          show "yields ?P (io_bind (findSkillDirs env (case subpath of None \<Rightarrow> basePath
                     | Some sub \<Rightarrow> if sub = [] then basePath else join [basePath, sub]) 0 5)
                   (\<lambda>allSkillDirs. io_bind (foldM (discoverFallback h env inc) allSkillDirs st)
                       (\<lambda>st'. io_return (fst st'))))"
            by (rule yields_bind) (rule inner)
        next
          show "yields ?P (io_return (fst st))" using fin[OF st] by (auto intro!: yields_return)
        qed
      qed
    qed
  qed
  from totalD[OF t, of log] obtain skills l where r: "discoverSkills h env basePath subpath inc log = (Inr skills, l)"
    by blast
  then have "?P skills" using y by (auto simp: yields_def)
  then show ?thesis using r by simp
qed


lemma foldl_pushIfNew:
  "fst (foldl pushIfNew st parsed)
     = fst st @ filter (\<lambda>t. skill_name t \<notin> snd st) (keepFirst (candidates parsed))"
proof (induction parsed arbitrary: st)
  case Nil
  then show ?case by (simp add: candidates_def)
next
  case (Cons p ps)
  show ?case
  proof (cases p)
    case None
    then show ?thesis using Cons[of st] by (simp add: pushIfNew_def candidates_def)
  next
    case (Some sk)
    have c: "candidates (p # ps) = sk # candidates ps" using Some by (simp add: candidates_def)
    show ?thesis
    proof (cases "skill_name sk \<in> snd st")
      case True
      then have "pushIfNew st p = st" using Some by (simp add: pushIfNew_def)
      moreover have "filter (\<lambda>t. skill_name t \<notin> snd st)
                        (filter (\<lambda>t. skill_name t \<noteq> skill_name sk) (keepFirst (candidates ps)))
                   = filter (\<lambda>t. skill_name t \<notin> snd st) (keepFirst (candidates ps))"
        using True by (auto intro!: filter_cong)
      ultimately show ?thesis using Cons[of st] True unfolding c by simp
    next
      case False
      then have "pushIfNew st p = (fst st @ [sk], insert (skill_name sk) (snd st))"
        using Some by (simp add: pushIfNew_def)
      moreover have "filter (\<lambda>t. skill_name t \<notin> insert (skill_name sk) (snd st)) (keepFirst (candidates ps))
                   = filter (\<lambda>t. skill_name t \<notin> snd st)
                        (filter (\<lambda>t. skill_name t \<noteq> skill_name sk) (keepFirst (candidates ps)))"
        by (auto intro!: filter_cong)
      ultimately show ?thesis using Cons[of "(fst st @ [sk], insert (skill_name sk) (snd st))"] False
        unfolding c by simp
    qed
  qed
qed

subsection \<open>Listing installed skills\<close>

lemma total_then [intro!]: "total m \<Longrightarrow> total k \<Longrightarrow> total (io_then m k)"
  by (auto simp: io_then_def)

lemma total_Pair [simp]: "total (Pair (Inr x))"
  by (simp add: total_def)

lemma total_exactNameMatch: "total (exactNameMatch h env (Some base) names)"
  by (induction names) (auto simp: Let_def)

lemma total_descriptorMatch: "total (descriptorMatch h env base skill entries)"
  by (induction entries) (auto simp: Let_def)

lemma total_agentHasSkill: "total (agentHasSkill h env (Some base) entryName skill)"
  unfolding agentHasSkill_def Let_def
  by (intro total_bind total_exactNameMatch total_if total_return) (auto intro!: total_descriptorMatch)

lemma throws_agentHasSkill: "\<exists>e l. agentHasSkill h env None entryName skill log = (Inl e, l)"
  by (simp add: agentHasSkill_def Let_def io_bind_apply)

lemma throws_findInstalledAgents:
  assumes "\<exists>a \<in> set agentsToCheck.
             case map_of agents a of None \<Rightarrow> True | Some cfg \<Rightarrow> agentBaseOf cfg isGlobal cwd = None"
  shows "\<exists>e l. findInstalledAgents h env agents isGlobal cwd entryName skill agentsToCheck acc log = (Inl e, l)"
  using assms
proof (induction agentsToCheck arbitrary: acc log)
  case Nil then show ?case by simp
next
  case (Cons a rest)
  show ?case
  proof (cases "map_of agents a")
    case None
    then show ?thesis by simp
  next
    case (Some cfg)
    show ?thesis
    proof (cases "agentBaseOf cfg isGlobal cwd")
      case None
      obtain e l where "agentHasSkill h env None entryName skill log = (Inl e, l)"
        using throws_agentHasSkill[of h env entryName skill log] by blast
      then show ?thesis using Some None by (simp add: io_bind_apply)
    next
      case base: (Some b)
      obtain found l where f: "agentHasSkill h env (Some b) entryName skill log = (Inr found, l)"
        using totalD[OF total_agentHasSkill] by blast
      have "\<exists>a \<in> set rest. case map_of agents a of None \<Rightarrow> True
                                  | Some cfg \<Rightarrow> agentBaseOf cfg isGlobal cwd = None"
        using Cons.prems Some base by auto
      from Cons.IH[OF this] show ?thesis using Some base f by (simp add: io_bind_apply)
    qed
  qed
qed

lemma listEntry_skips_or_throws:
  assumes "\<exists>a \<in> set (case agentFilter options of Some f \<Rightarrow> f | None \<Rightarrow> map fst agents).
             case map_of agents a of None \<Rightarrow> True
             | Some cfg \<Rightarrow> agentBaseOf cfg isGlobal (orCwd h (list_cwd options)) = None"
  shows "(\<exists>l. listEntry h env agents options isGlobal scopePath installed entry log = (Inr installed, l))
       \<or> (\<exists>e l. listEntry h env agents options isGlobal scopePath installed entry log = (Inl e, l))"
proof (cases "dirent_isDirectory entry")
  case False
  then show ?thesis by (simp add: listEntry_def)
next
  case True
  let ?md = "join [join [scopePath, dirent_name entry], js ''SKILL.md'']"
  obtain present l1 where
    p: "io_catch (io_then (stat env ?md) (io_return True)) (\<lambda>_. io_return False) log = (Inr present, l1)"
    using totalD[of "io_catch (io_then (stat env ?md) (io_return True)) (\<lambda>_. io_return False)" log]
    by auto
  show ?thesis
  proof (cases present)
    case False
    then show ?thesis using True p by (simp add: listEntry_def Let_def io_bind_apply)
  next
    case pr: True
    obtain parsed l2 where q: "parseSkillMd h env ?md False l1 = (Inr parsed, l2)"
      using totalD[OF total_parseSkillMd] by blast
    show ?thesis
    proof (cases parsed)
      case None
      then show ?thesis using True p pr q by (simp add: listEntry_def Let_def io_bind_apply)
    next
      case (Some skill)
      obtain e l3 where "findInstalledAgents h env agents isGlobal (orCwd h (list_cwd options))
                           (dirent_name entry) skill
                           (case agentFilter options of Some f \<Rightarrow> f | None \<Rightarrow> map fst agents) [] l2
                         = (Inl e, l3)"
        using throws_findInstalledAgents[OF assms] by blast
      then show ?thesis using True p pr q Some by (simp add: listEntry_def Let_def io_bind_apply)
    qed
  qed
qed

lemma foldTry_unchanged:
  assumes "\<And>x log. (\<exists>l. body s x log = (Inr s, l)) \<or> (\<exists>e l. body s x log = (Inl e, l))"
  shows "\<exists>l. foldTry body xs s log = (Inr s, l)"
proof (induction xs arbitrary: log)
  case Nil show ?case by simp
next
  case (Cons x xs)
  from assms[of x log] show ?case
  proof
    assume "\<exists>l. body s x log = (Inr s, l)"
    then obtain l where "body s x log = (Inr s, l)" by blast
    then show ?thesis using Cons[of l] by simp
  next
    assume "\<exists>e l. body s x log = (Inl e, l)"
    then show ?thesis by auto
  qed
qed

lemma listScope_unchanged:
  assumes "\<exists>a \<in> set (case agentFilter options of Some f \<Rightarrow> f | None \<Rightarrow> map fst agents).
             case map_of agents a of None \<Rightarrow> True
             | Some cfg \<Rightarrow> agentBaseOf cfg isGlobal (orCwd h (list_cwd options)) = None"
  shows "\<exists>l. listScope h env agents options installed (isGlobal, scopePath) log = (Inr installed, l)"
proof (cases "readdir env scopePath log")
  case (Pair r l0)
  show ?thesis
  proof (cases r)
    case (Inl e)
    then show ?thesis using Pair by (simp add: listScope_def io_catch_apply io_bind_apply)
  next
    case (Inr entries)
    obtain l where "foldTry (listEntry h env agents options isGlobal scopePath) entries installed l0
                     = (Inr installed, l)"
      using foldTry_unchanged[of "listEntry h env agents options isGlobal scopePath" installed entries l0]
        listEntry_skips_or_throws[OF assms] by blast
    then show ?thesis using Pair Inr by (simp add: listScope_def io_catch_apply io_bind_apply)
  qed
qed

lemma listInstalledSkills_global_empty:
  assumes "\<exists>a \<in> set (case agentFilter options of Some f \<Rightarrow> f | None \<Rightarrow> map fst agents).
             case map_of agents a of None \<Rightarrow> True | Some cfg \<Rightarrow> globalSkillsDir cfg = None"
    and "list_global options = Some True"
  shows "fst (listInstalledSkills h env agents options log) = Inr []"
proof -
  have "\<exists>a \<in> set (case agentFilter options of Some f \<Rightarrow> f | None \<Rightarrow> map fst agents).
             case map_of agents a of None \<Rightarrow> True
             | Some cfg \<Rightarrow> agentBaseOf cfg True (orCwd h (list_cwd options)) = None"
    using assms(1) by (auto simp: agentBaseOf_def split: option.splits)
  from listScope_unchanged[OF this]
  obtain l where "listScope h env agents options []
      (True, getCanonicalSkillsDir h True (Some (orCwd h (list_cwd options)))) log = (Inr [], l)"
    by blast
  then show ?thesis using assms(2) by (simp add: listInstalledSkills_def Let_def io_bind_apply)
qed

section \<open>Runs in the concrete world\<close>

text \<open>
  The installs used as witnesses and counterexamples below, evaluated once: the
  result and the log of every call made.
\<close>

lemma run_symlink:
  "installSkillForAgent demoHost demoFs demoAgents foo (js ''claude-code'') symlinkInstall [] =
    (Inr \<lparr>success = True, path = js ''/work/.claude/skills/foo'', canonicalPath = Some (js
         ''/work/.agents/skills/foo''), mode = SymlinkMode, symlinkFailed = Some True, error =
         None\<rparr>,
     [(Lstat (js ''/work/.agents/skills/foo''), Some ENOENT),
      (Mkdir (js ''/work/.agents/skills/foo''), None),
      (Mkdir (js ''/work/.agents/skills/foo''), None),
      (Readdir (js ''/tmp/repo/foo''), None),
      (Cp (js ''/tmp/repo/foo/SKILL.md'') (js ''/work/.agents/skills/foo/SKILL.md'') True True,
         None),
      (Mkdir (js ''/work/.agents/skills/foo/scripts''), None),
      (Readdir (js ''/tmp/repo/foo/scripts''), None),
      (Cp (js ''/tmp/repo/foo/scripts/run.sh'') (js
         ''/work/.agents/skills/foo/scripts/run.sh'') True True, None),
      (Lstat (js ''/work/.claude/skills/foo''), Some ENOENT),
      (Mkdir (js ''/work/.claude/skills''), None),
      (Symlink (js ''../../.agents/skills/foo'') (js ''/work/.claude/skills/foo''), Some EPERM),
      (Rm (js ''/work/.claude/skills/foo'') True True, None),
      (Mkdir (js ''/work/.claude/skills/foo''), None),
      (Mkdir (js ''/work/.claude/skills/foo''), None),
      (Readdir (js ''/tmp/repo/foo''), None),
      (Cp (js ''/tmp/repo/foo/SKILL.md'') (js ''/work/.claude/skills/foo/SKILL.md'') True True,
         None),
      (Mkdir (js ''/work/.claude/skills/foo/scripts''), None),
      (Readdir (js ''/tmp/repo/foo/scripts''), None),
      (Cp (js ''/tmp/repo/foo/scripts/run.sh'') (js
         ''/work/.claude/skills/foo/scripts/run.sh'') True True, None)])"
  by code_simp

lemma run_remote:
  "installRemoteSkillForAgent demoHost demoFs demoAgents remoteFoo (js ''claude-code'') symlinkInstall [] =
    (Inr \<lparr>success = True, path = js ''/work/.claude/skills/foo'', canonicalPath = Some (js
         ''/work/.agents/skills/foo''), mode = SymlinkMode, symlinkFailed = Some True, error =
         None\<rparr>,
     [(Lstat (js ''/work/.agents/skills/foo''), Some ENOENT),
      (Mkdir (js ''/work/.agents/skills/foo''), None),
      (WriteFile (js ''/work/.agents/skills/foo/SKILL.md'') (js ''foo''), None),
      (Lstat (js ''/work/.claude/skills/foo''), Some ENOENT),
      (Mkdir (js ''/work/.claude/skills''), None),
      (Symlink (js ''../../.agents/skills/foo'') (js ''/work/.claude/skills/foo''), Some EPERM),
      (Rm (js ''/work/.claude/skills/foo'') True True, None),
      (Mkdir (js ''/work/.claude/skills/foo''), None),
      (WriteFile (js ''/work/.claude/skills/foo/SKILL.md'') (js ''foo''), None)])"
  by code_simp

lemma run_copy:
  "installSkillForAgent demoHost demoFs demoAgents foo (js ''claude-code'') copyInstall [] =
    (Inr \<lparr>success = True, path = js ''/work/.claude/skills/foo'', canonicalPath = None, mode
         = CopyMode, symlinkFailed = None, error = None\<rparr>,
     [(Mkdir (js ''/work/.claude/skills/foo''), None),
      (Mkdir (js ''/work/.claude/skills/foo''), None),
      (Readdir (js ''/tmp/repo/foo''), None),
      (Cp (js ''/tmp/repo/foo/SKILL.md'') (js ''/work/.claude/skills/foo/SKILL.md'') True True,
         None),
      (Mkdir (js ''/work/.claude/skills/foo/scripts''), None),
      (Readdir (js ''/tmp/repo/foo/scripts''), None),
      (Cp (js ''/tmp/repo/foo/scripts/run.sh'') (js
         ''/work/.claude/skills/foo/scripts/run.sh'') True True, None)])"
  by code_simp

lemma run_locked:
  "installSkillForAgent demoHost lockedFs demoAgents foo (js ''claude-code'') symlinkInstall [] =
    (Inr \<lparr>success = False, path = js ''/work/.claude/skills/foo'', canonicalPath = None,
         mode = SymlinkMode, symlinkFailed = None, error =
         Some (js ''EACCES: permission denied, mkdir'')\<rparr>,
     [(Lstat (js ''/work/.agents/skills/foo''), Some ENOENT),
      (Mkdir (js ''/work/.agents/skills/foo''), None),
      (Mkdir (js ''/work/.agents/skills/foo''), None),
      (Readdir (js ''/tmp/repo/foo''), None),
      (Cp (js ''/tmp/repo/foo/SKILL.md'') (js ''/work/.agents/skills/foo/SKILL.md'') True True,
         None),
      (Mkdir (js ''/work/.agents/skills/foo/scripts''), None),
      (Readdir (js ''/tmp/repo/foo/scripts''), None),
      (Cp (js ''/tmp/repo/foo/scripts/run.sh'') (js
         ''/work/.agents/skills/foo/scripts/run.sh'') True True, None),
      (Lstat (js ''/work/.claude/skills/foo''), Some ENOENT),
      (Mkdir (js ''/work/.claude/skills''), None),
      (Symlink (js ''../../.agents/skills/foo'') (js ''/work/.claude/skills/foo''), Some EPERM),
      (Rm (js ''/work/.claude/skills/foo'') True True, None),
      (Mkdir (js ''/work/.claude/skills/foo''), Some EACCES)])"
  by code_simp

lemma run_replit_global:
  "installSkillForAgent demoHost demoFs demoAgents foo (js ''replit'') globalInstall [] =
    (Inl ERR_INVALID_ARG_TYPE, [])"
  by code_simp


text \<open>
  Writing the files of a fetched skill, one of which has a path that leaves the
  target directory; copying the checkout of \<open>foo\<close>; discovering the skills of a
  repository where two directories declare the same name; listing the global
  store, for all agents of the table and for \<open>claude-code\<close> alone.
\<close>

lemma run_write:
  "writeSkillFiles demoHost demoFs demoFiles (js ''/work/.agents/skills/foo'') [] =
    (Inr (),
     [(Mkdir (js ''/work/.agents/skills/foo''), None),
      (WriteFile (js ''/work/.agents/skills/foo/SKILL.md'') (js ''foo''), None),
      (Mkdir (js ''/work/.agents/skills/foo/ref''), None),
      (WriteFile (js ''/work/.agents/skills/foo/ref/notes.md'') (js ''n''), None)])"
  by code_simp

lemma run_copyDirectory:
  "copyDirectory 8 demoFs (js ''/tmp/repo/foo'') (js ''/dst'') [] =
    (Inr (),
     [(Mkdir (js ''/dst''), None),
      (Readdir (js ''/tmp/repo/foo''), None),
      (Cp (js ''/tmp/repo/foo/SKILL.md'') (js ''/dst/SKILL.md'') True True, None),
      (Mkdir (js ''/dst/scripts''), None),
      (Readdir (js ''/tmp/repo/foo/scripts''), None),
      (Cp (js ''/tmp/repo/foo/scripts/run.sh'') (js ''/dst/scripts/run.sh'') True True, None)])"
  by code_simp

lemma run_discover:
  "fst (discoverSkills demoHost demoFs (js ''/repo'') None False []) =
     Inr [\<lparr>skill_name = js ''dup'', skill_description = js ''A skill'',
           skill_path = js ''/repo/a'', skill_rawContent = Some (js ''dup'')\<rparr>]"
  by code_simp

lemma run_list_all:
  "listInstalledSkills demoHost demoFs demoAgents
     \<lparr>list_global = Some True, list_cwd = None, agentFilter = None\<rparr> [] =
    (Inr [],
     [(Readdir (js ''/home/u/.agents/skills''), None),
      (Stat (js ''/home/u/.agents/skills/foo/SKILL.md''), None),
      (ReadFile (js ''/home/u/.agents/skills/foo/SKILL.md''), None),
      (Access (js ''/home/u/.claude/skills/foo''), Some ENOENT),
      (Readdir (js ''/home/u/.claude/skills''), Some ENOENT)])"
  by code_simp

lemma run_list_claude:
  "listInstalledSkills demoHost demoFs demoAgents
     \<lparr>list_global = Some True, list_cwd = None, agentFilter = Some [js ''claude-code'']\<rparr> [] =
    (Inr [\<lparr>is_name = js ''foo'', is_description = js ''A skill'',
           is_path = js ''/home/u/.agents/skills/foo'',
           is_canonicalPath = js ''/home/u/.agents/skills/foo'',
           is_scope = global, is_agents = []\<rparr>],
     [(Readdir (js ''/home/u/.agents/skills''), None),
      (Stat (js ''/home/u/.agents/skills/foo/SKILL.md''), None),
      (ReadFile (js ''/home/u/.agents/skills/foo/SKILL.md''), None),
      (Access (js ''/home/u/.claude/skills/foo''), Some ENOENT),
      (Readdir (js ''/home/u/.claude/skills''), Some ENOENT)])"
  by code_simp
section \<open>The canonical entry comes first\<close>




section \<open>The fallback from link to copy\<close>




section \<open>Failures are reported, not thrown\<close>





section \<open>The files of a fetched skill stay under the target directory\<close>

text \<open>
  C7. \<open>writeSkillFiles\<close> (the loop of \<open>installWellKnownSkillForAgent\<close> over the
  in-memory file map) calls only \<open>mkdir\<close> and \<open>writeFile\<close>. Every \<open>writeFile\<close> it
  calls has a path that passes \<open>isPathSafe\<close> against the target directory, so the
  components of the target directory are a prefix of the components of that path,
  and the path is the target directory joined with the relative path of an entry
  of the map, written with that entry's content: an entry whose joined path fails
  the check is never written. A skipped entry raises nothing: the run ends with an
  error only when a \<open>mkdir\<close> or \<open>writeFile\<close> call was rejected, and a run that
  returns has written every entry whose joined path passes the check.
\<close>

theorem writeSkillFiles_contained:
  assumes "isAbsolute (process_cwd h)"
  shows "(\<forall>p c x. (WriteFile p c, x)
              \<in> set (newEvents log (snd (writeSkillFiles h env files targetDir log))) \<longrightarrow>
            isPathSafe (process_cwd h) targetDir p
            \<and> prefix (pathComponents (process_cwd h) targetDir) (pathComponents (process_cwd h) p)
            \<and> (\<exists>f. (f, c) \<in> set files \<and> p = join [targetDir, f]))
       \<and> (\<forall>ev \<in> set (newEvents log (snd (writeSkillFiles h env files targetDir log))).
            case fst ev of WriteFile _ _ \<Rightarrow> True | Mkdir _ \<Rightarrow> True | _ \<Rightarrow> False)
       \<and> (\<forall>e. fst (writeSkillFiles h env files targetDir log) = Inl e \<longrightarrow>
            snd (writeSkillFiles h env files targetDir log) \<noteq> log
            \<and> endsWith e (snd (writeSkillFiles h env files targetDir log)))
       \<and> (\<forall>f c. fst (writeSkillFiles h env files targetDir log) = Inr () \<longrightarrow>
            (f, c) \<in> set files \<longrightarrow>
            isPathSafe (process_cwd h) targetDir (join [targetDir, f]) \<longrightarrow>
            (WriteFile (join [targetDir, f]) c, None)
              \<in> set (newEvents log (snd (writeSkillFiles h env files targetDir log))))"
proof -
  obtain r log' where run: "writeSkillFiles h env files targetDir log = (r, log')"
    by (cases "writeSkillFiles h env files targetDir log")
  note evs = emitsD[OF writeSkillFiles_emits run]
  have 1: "isPathSafe (process_cwd h) targetDir p
            \<and> prefix (pathComponents (process_cwd h) targetDir) (pathComponents (process_cwd h) p)
            \<and> (\<exists>f. (f, c) \<in> set files \<and> p = join [targetDir, f])"
    if "(WriteFile p c, x) \<in> set (newEvents log log')" for p c x
  proof -
    from evs that have s: "isPathSafe (process_cwd h) targetDir p"
      and f: "\<exists>f. (f, c) \<in> set files \<and> p = join [targetDir, f]" by fastforce+
    have "prefix (pathComponents (process_cwd h) targetDir) (pathComponents (process_cwd h) p)"
      using s unfolding isPathSafe_components[OF assms] by (simp split: if_splits)
    then show ?thesis using s f by blast
  qed
  have 2: "\<forall>ev \<in> set (newEvents log log').
             case fst ev of WriteFile _ _ \<Rightarrow> True | Mkdir _ \<Rightarrow> True | _ \<Rightarrow> False"
  proof
    fix ev assume "ev \<in> set (newEvents log log')"
    with evs show "case fst ev of WriteFile _ _ \<Rightarrow> True | Mkdir _ \<Rightarrow> True | _ \<Rightarrow> False"
      by (cases "fst ev") auto
  qed
  have 3: "log' \<noteq> log \<and> endsWith e log'" if "r = Inl e" for e
    using traced_writeSkillFiles[of h env files targetDir] run that unfolding traced_def by blast
  have 4: "(WriteFile (join [targetDir, f]) c, None) \<in> set (newEvents log log')"
    if "r = Inr ()" "(f, c) \<in> set files"
      "isPathSafe (process_cwd h) targetDir (join [targetDir, f])" for f c
    using writeSkillFiles_writes[OF run[unfolded that(1)] that(2,3)] .
  show ?thesis unfolding run fst_conv snd_conv using 1 2 3 4 by blast
qed

theorem writeSkillFiles_contained_witness:
  "isAbsolute (process_cwd demoHost)
   \<and> fst (writeSkillFiles demoHost demoFs demoFiles (js ''/work/.agents/skills/foo'') []) = Inr ()
   \<and> (js ''../../outside.txt'', js ''x'') \<in> set demoFiles
   \<and> join [js ''/work/.agents/skills/foo'', js ''../../outside.txt''] = js ''/work/.agents/outside.txt''
   \<and> \<not> isPathSafe (process_cwd demoHost) (js ''/work/.agents/skills/foo'')
          (js ''/work/.agents/outside.txt'')
   \<and> (\<forall>c x. (WriteFile (js ''/work/.agents/outside.txt'') c, x)
          \<notin> set (newEvents []
                 (snd (writeSkillFiles demoHost demoFs demoFiles (js ''/work/.agents/skills/foo'') []))))
   \<and> (js ''ref/notes.md'', js ''n'') \<in> set demoFiles
   \<and> (WriteFile (js ''/work/.agents/skills/foo/ref/notes.md'') (js ''n''), None)
          \<in> set (newEvents []
                 (snd (writeSkillFiles demoHost demoFs demoFiles (js ''/work/.agents/skills/foo'') [])))
   \<and> prefix (pathComponents (process_cwd demoHost) (js ''/work/.agents/skills/foo''))
        (pathComponents (process_cwd demoHost) (js ''/work/.agents/skills/foo/ref/notes.md''))"
proof -
  have a: "isAbsolute (process_cwd demoHost)" by code_simp
  note t = writeSkillFiles_contained[OF a, of "[]" demoFs demoFiles "js ''/work/.agents/skills/foo''"]
  have r: "fst (writeSkillFiles demoHost demoFs demoFiles (js ''/work/.agents/skills/foo'') []) = Inr ()"
    unfolding run_write by simp
  have o: "(js ''../../outside.txt'', js ''x'') \<in> set demoFiles" by (simp add: demoFiles_def)
  have j: "join [js ''/work/.agents/skills/foo'', js ''../../outside.txt'']
             = js ''/work/.agents/outside.txt''" by code_simp
  have u: "\<not> isPathSafe (process_cwd demoHost) (js ''/work/.agents/skills/foo'')
               (js ''/work/.agents/outside.txt'')" by code_simp
  have n: "(js ''ref/notes.md'', js ''n'') \<in> set demoFiles" by (simp add: demoFiles_def)
  have jn: "join [js ''/work/.agents/skills/foo'', js ''ref/notes.md'']
              = js ''/work/.agents/skills/foo/ref/notes.md''" by code_simp
  have s: "isPathSafe (process_cwd demoHost) (js ''/work/.agents/skills/foo'')
             (join [js ''/work/.agents/skills/foo'', js ''ref/notes.md''])" by code_simp
  have skipped: "\<forall>c x. (WriteFile (js ''/work/.agents/outside.txt'') c, x)
          \<notin> set (newEvents []
                 (snd (writeSkillFiles demoHost demoFs demoFiles (js ''/work/.agents/skills/foo'') [])))"
  proof -
    from t have "\<And>c x. (WriteFile (js ''/work/.agents/outside.txt'') c, x)
          \<in> set (newEvents []
                 (snd (writeSkillFiles demoHost demoFs demoFiles (js ''/work/.agents/skills/foo'') [])))
        \<Longrightarrow> isPathSafe (process_cwd demoHost) (js ''/work/.agents/skills/foo'')
               (js ''/work/.agents/outside.txt'')"
      by blast
    with u show ?thesis by blast
  qed
  have written: "(WriteFile (js ''/work/.agents/skills/foo/ref/notes.md'') (js ''n''), None)
          \<in> set (newEvents []
                 (snd (writeSkillFiles demoHost demoFs demoFiles (js ''/work/.agents/skills/foo'') [])))"
  proof -
    from t have "fst (writeSkillFiles demoHost demoFs demoFiles (js ''/work/.agents/skills/foo'') []) = Inr ()
        \<Longrightarrow> (js ''ref/notes.md'', js ''n'') \<in> set demoFiles
        \<Longrightarrow> isPathSafe (process_cwd demoHost) (js ''/work/.agents/skills/foo'')
              (join [js ''/work/.agents/skills/foo'', js ''ref/notes.md''])
        \<Longrightarrow> (WriteFile (join [js ''/work/.agents/skills/foo'', js ''ref/notes.md'']) (js ''n''), None)
              \<in> set (newEvents []
                 (snd (writeSkillFiles demoHost demoFs demoFiles (js ''/work/.agents/skills/foo'') [])))"
      by blast
    from this[OF r n s] show ?thesis unfolding jn .
  qed
  have under: "prefix (pathComponents (process_cwd demoHost) (js ''/work/.agents/skills/foo''))
        (pathComponents (process_cwd demoHost) (js ''/work/.agents/skills/foo/ref/notes.md''))"
  proof -
    from t have "\<And>c x. (WriteFile (js ''/work/.agents/skills/foo/ref/notes.md'') c, x)
          \<in> set (newEvents []
                 (snd (writeSkillFiles demoHost demoFs demoFiles (js ''/work/.agents/skills/foo'') [])))
        \<Longrightarrow> prefix (pathComponents (process_cwd demoHost) (js ''/work/.agents/skills/foo''))
              (pathComponents (process_cwd demoHost) (js ''/work/.agents/skills/foo/ref/notes.md''))"
      by blast
    from this[OF written] show ?thesis .
  qed
  show ?thesis
    by (intro conjI a r o j u skipped n written under)
qed

section \<open>What a copy of a directory leaves out\<close>



section \<open>Listing the global store\<close>

text \<open>
  C9. \<open>listInstalledSkills\<close> does not report every directory of the canonical
  store that holds a parseable descriptor. When the global scope is listed and one
  of the agents checked (those of \<open>agentFilter\<close>, or every key of the agents table
  when there is no filter) has no global skills directory, the result is empty
  whatever the store holds: for the first directory with a parseable descriptor,
  \<open>join(agentBase, possibleName)\<close> is called with \<open>agentBase\<close> undefined and
  throws inside the \<open>try\<close> that encloses the whole scope, before the skill is
  pushed, and the scope is given up. The agents table has such an agent, \<open>replit\<close>.
\<close>

theorem listInstalledSkills_global_scope_given_up:
  assumes "a \<in> set (case agentFilter options of Some f \<Rightarrow> f | None \<Rightarrow> map fst agents)"
    and "map_of agents a = Some cfg"
    and "globalSkillsDir cfg = None"
    and "list_global options = Some True"
  shows "fst (listInstalledSkills h env agents options log) = Inr []"
proof -
  have "\<exists>a \<in> set (case agentFilter options of Some f \<Rightarrow> f | None \<Rightarrow> map fst agents).
          case map_of agents a of None \<Rightarrow> True | Some cfg \<Rightarrow> globalSkillsDir cfg = None"
    using assms(1,2,3) by (intro bexI[of _ a]) simp_all
  then show ?thesis using assms(4) by (rule listInstalledSkills_global_empty)
qed

theorem listInstalledSkills_global_scope_given_up_witness:
  "js ''replit'' \<in> set (map fst demoAgents)
   \<and> (\<exists>cfg. map_of demoAgents (js ''replit'') = Some cfg \<and> globalSkillsDir cfg = None)
   \<and> fst (listInstalledSkills demoHost demoFs demoAgents
            \<lparr>list_global = Some True, list_cwd = None, agentFilter = None\<rparr> []) = Inr []
   \<and> (Stat (js ''/home/u/.agents/skills/foo/SKILL.md''), None)
        \<in> set (snd (listInstalledSkills demoHost demoFs demoAgents
                       \<lparr>list_global = Some True, list_cwd = None, agentFilter = None\<rparr> []))
   \<and> (ReadFile (js ''/home/u/.agents/skills/foo/SKILL.md''), None)
        \<in> set (snd (listInstalledSkills demoHost demoFs demoAgents
                       \<lparr>list_global = Some True, list_cwd = None, agentFilter = None\<rparr> []))
   \<and> fst (listInstalledSkills demoHost demoFs demoAgents
            \<lparr>list_global = Some True, list_cwd = None, agentFilter = Some [js ''claude-code'']\<rparr> [])
       = Inr [\<lparr>is_name = js ''foo'', is_description = js ''A skill'',
                is_path = js ''/home/u/.agents/skills/foo'',
                is_canonicalPath = js ''/home/u/.agents/skills/foo'',
                is_scope = global, is_agents = []\<rparr>]"
proof -
  have m: "js ''replit'' \<in> set (map fst demoAgents)" by code_simp
  have c: "map_of demoAgents (js ''replit'')
             = Some \<lparr>agent_name = js ''replit'', displayName = js ''Replit'',
                     skillsDir = js ''.agent/skills'', globalSkillsDir = None\<rparr>"
    by code_simp
  have e: "fst (listInstalledSkills demoHost demoFs demoAgents
            \<lparr>list_global = Some True, list_cwd = None, agentFilter = None\<rparr> []) = Inr []"
    using listInstalledSkills_global_scope_given_up[where a = "js ''replit''"
        and options = "\<lparr>list_global = Some True, list_cwd = None, agentFilter = None\<rparr>"
        and agents = demoAgents and h = demoHost and env = demoFs and log = "[]", OF _ c] m
    by simp
  have s: "(Stat (js ''/home/u/.agents/skills/foo/SKILL.md''), None)
        \<in> set (snd (listInstalledSkills demoHost demoFs demoAgents
                       \<lparr>list_global = Some True, list_cwd = None, agentFilter = None\<rparr> []))"
    "(ReadFile (js ''/home/u/.agents/skills/foo/SKILL.md''), None)
        \<in> set (snd (listInstalledSkills demoHost demoFs demoAgents
                       \<lparr>list_global = Some True, list_cwd = None, agentFilter = None\<rparr> []))"
    unfolding run_list_all by simp_all
  have f: "fst (listInstalledSkills demoHost demoFs demoAgents
            \<lparr>list_global = Some True, list_cwd = None, agentFilter = Some [js ''claude-code'']\<rparr> [])
       = Inr [\<lparr>is_name = js ''foo'', is_description = js ''A skill'',
                is_path = js ''/home/u/.agents/skills/foo'',
                is_canonicalPath = js ''/home/u/.agents/skills/foo'',
                is_scope = global, is_agents = []\<rparr>]"
    unfolding run_list_claude by simp
  have c': "\<exists>cfg. map_of demoAgents (js ''replit'') = Some cfg \<and> globalSkillsDir cfg = None"
    unfolding c by simp
  show ?thesis by (intro conjI m c' e s f)
qed

section \<open>Discovered skills have distinct names\<close>



end
